theory Spec2Isabelle
  imports Main "HOL-Library.Sublist"
begin

section \<open>Python values, strings and dictionaries\<close>

text \<open>
  The values that flow through \<^verbatim>\<open>scrapesearch.py\<close> are strings, \<^verbatim>\<open>None\<close> and (from a
  configuration file) integers. A dictionary is an association list in insertion order with
  one entry per key, which is what a Python \<^verbatim>\<open>dict\<close> iterates over and what
  \<^verbatim>\<open>json.dump\<close> writes.
\<close>

datatype pyval = PNone | PStr string | PInt int

fun truthy :: "pyval \<Rightarrow> bool" where
  "truthy PNone = False"
| "truthy (PStr s) = (s \<noteq> [])"
| "truthy (PInt i) = (i \<noteq> 0)"

type_synonym pydict = "(string \<times> pyval) list"

definition dict_has :: "pydict \<Rightarrow> string \<Rightarrow> bool" where
  \<comment> \<open>\<^verbatim>\<open>field in item\<close>\<close>
  "dict_has d k = (map_of d k \<noteq> None)"

definition dict_get :: "pydict \<Rightarrow> string \<Rightarrow> pyval" where
  \<comment> \<open>\<^verbatim>\<open>item.get(field)\<close>: \<^verbatim>\<open>None\<close> for a missing key\<close>
  "dict_get d k = (case map_of d k of None \<Rightarrow> PNone | Some v \<Rightarrow> v)"

fun dict_set :: "pydict \<Rightarrow> string \<Rightarrow> pyval \<Rightarrow> pydict" where
  \<comment> \<open>\<^verbatim>\<open>d[k] = v\<close>: an existing key keeps its position, a new key goes last\<close>
  "dict_set [] k v = [(k, v)]"
| "dict_set ((k', v') # d) k v =
     (if k' = k then (k, v) # d else (k', v') # dict_set d k v)"

text \<open>
  \<^verbatim>\<open>str.split()\<close>, \<^verbatim>\<open>str.strip()\<close> and \<^verbatim>\<open>str.isspace()\<close> on the characters below 256:
  Python's whitespace there is TAB, LF, VT, FF, CR, the separators 28 to 31, the space,
  NEL (133) and the no-break space (160).
\<close>

definition is_space :: "char \<Rightarrow> bool" where
  "is_space c = (of_char c \<in> {9, 10, 11, 12, 13, 28, 29, 30, 31, 32, 133, 160 :: nat})"

function py_split :: "string \<Rightarrow> string list" where
  "py_split s =
     (let t = dropWhile is_space s
      in if t = [] then []
         else takeWhile (\<lambda>c. \<not> is_space c) t # py_split (dropWhile (\<lambda>c. \<not> is_space c) t))"
  by pat_completeness auto
termination
proof (relation "measure length")
  show "wf (measure length)" by simp
next
  fix s t :: string
  assume t: "t = dropWhile is_space s" and ne: "t \<noteq> []"
  from ne obtain c cs where tc: "t = c # cs" by (cases t) auto
  have "\<not> is_space (hd (dropWhile is_space s))"
    using ne unfolding t by (rule hd_dropWhile)
  then have "\<not> is_space c" using tc by (simp add: t[symmetric])
  then have "length (dropWhile (\<lambda>c. \<not> is_space c) t) \<le> length cs"
    using tc by (simp add: length_dropWhile_le)
  moreover have "length t \<le> length s" using t by (simp add: length_dropWhile_le)
  ultimately show "(dropWhile (\<lambda>c. \<not> is_space c) t, s) \<in> measure length"
    using tc by simp
qed

declare py_split.simps [simp del]

fun py_join :: "string \<Rightarrow> string list \<Rightarrow> string" where
  "py_join sep [] = []"
| "py_join sep [x] = x"
| "py_join sep (x # y # ys) = x @ sep @ py_join sep (y # ys)"

definition py_strip :: "string \<Rightarrow> string" where
  "py_strip s = rev (dropWhile is_space (rev (dropWhile is_space s)))"

definition py_in :: "string \<Rightarrow> string \<Rightarrow> bool" where
  \<comment> \<open>\<^verbatim>\<open>domain in url\<close>: the substring test\<close>
  "py_in d u = sublist d u"

section \<open>Core functions\<close>

subsection \<open>clean_text\<close>

fun clean_text :: "pyval \<Rightarrow> string" where
  "clean_text (PStr text) = py_strip (py_join '' '' (py_split text))"
| "clean_text _ = ''''"

subsection \<open>Parsed documents\<close>

text \<open>
  A parsed document is a tree of elements and strings; the \<^verbatim>\<open>BeautifulSoup\<close> object is its
  root element. Parsing itself is the library's: a response carries the tree. A string of
  the tree is a plain \<^verbatim>\<open>NavigableString\<close> (\<open>Text\<close>) or a string of one of the library's
  special classes (\<open>Special\<close>): a comment, a CDATA section, a doctype, a declaration or a
  processing instruction, and the strings the parser puts inside \<^verbatim>\<open>script\<close>, \<^verbatim>\<open>style\<close>,
  \<^verbatim>\<open>template\<close>, \<^verbatim>\<open>rt\<close> and \<^verbatim>\<open>rp\<close> elements.
  \<^verbatim>\<open>find\<close>, \<^verbatim>\<open>find_all\<close>, \<^verbatim>\<open>get_text\<close>, \<^verbatim>\<open>.text\<close>, \<^verbatim>\<open>.get\<close> and \<^verbatim>\<open>decompose\<close> work on
  the descendants of a tag in document order. CSS selection (\<^verbatim>\<open>select\<close>, \<^verbatim>\<open>select_one\<close>) is
  a parameter \<open>css\<close> of the functions that use it: \<open>css sel n\<close> is the list of the descendants of
  \<open>n\<close> that match \<open>sel\<close>, in document order.
\<close>

datatype special =
    CData | Comment | Script | Stylesheet | TemplateString | RubyTextString
  | RubyParenthesisString | Doctype | Declaration | ProcessingInstruction

datatype node =
    Element string "(string \<times> string) list" "node list"
  | Text string
  | Special special string

type_synonym css = "string \<Rightarrow> node \<Rightarrow> node list"

fun subtree :: "node \<Rightarrow> node list" where
  "subtree (Text s) = [Text s]"
| "subtree (Special k s) = [Special k s]"
| "subtree (Element n a cs) = Element n a cs # concat (map subtree cs)"

definition descendants :: "node \<Rightarrow> node list" where
  "descendants n = tl (subtree n)"

fun has_name :: "string list \<Rightarrow> node \<Rightarrow> bool" where
  "has_name names (Element n a cs) = (n \<in> set names)"
| "has_name names (Text s) = False"
| "has_name names (Special k s) = False"

fun tag_name :: "node \<Rightarrow> string" where
  "tag_name (Element n a cs) = n"
| "tag_name (Text s) = []"
| "tag_name (Special k s) = []"

fun attrs :: "node \<Rightarrow> (string \<times> string) list" where
  "attrs (Element n a cs) = a"
| "attrs (Text s) = []"
| "attrs (Special k s) = []"

definition attr_get :: "node \<Rightarrow> string \<Rightarrow> string option" where
  \<comment> \<open>\<^verbatim>\<open>tag.get(key)\<close>\<close>
  "attr_get n k = map_of (attrs n) k"

definition find_all :: "string list \<Rightarrow> node \<Rightarrow> node list" where
  "find_all names n = filter (has_name names) (descendants n)"

definition find_tag :: "string \<Rightarrow> node \<Rightarrow> node option" where
  \<comment> \<open>\<^verbatim>\<open>soup.find(name)\<close>, also \<^verbatim>\<open>soup.title\<close> and \<^verbatim>\<open>soup.body\<close>\<close>
  "find_tag name n = (case find_all [name] n of [] \<Rightarrow> None | x # xs \<Rightarrow> Some x)"

definition find_meta_description :: "node \<Rightarrow> node option" where
  \<comment> \<open>\<^verbatim>\<open>soup.find("meta", attrs={"name": "description"})\<close>\<close>
  "find_meta_description n =
     List.find (\<lambda>m. has_name [''meta''] m \<and> attr_get m ''name'' = Some ''description'')
       (descendants n)"

text \<open>
  The text of a tag is made of the strings below it that are interesting for the tag
  (\<^verbatim>\<open>Tag.interesting_string_types\<close>): for a \<^verbatim>\<open>script\<close>, \<^verbatim>\<open>style\<close>, \<^verbatim>\<open>template\<close>, \<^verbatim>\<open>rt\<close> or
  \<^verbatim>\<open>rp\<close> tag the strings of its own special class, for every other tag the plain strings
  and the CDATA sections. Comments and the text of scripts and style sheets are therefore
  not part of the text of a paragraph or a heading that contains them.
\<close>

definition string_containers :: "(string \<times> special) list" where
  "string_containers =
     [(''rt'', RubyTextString), (''rp'', RubyParenthesisString), (''style'', Stylesheet),
      (''script'', Script), (''template'', TemplateString)]"

fun interesting_string :: "string \<Rightarrow> node \<Rightarrow> string option" where
  "interesting_string tag (Text s) =
     (if map_of string_containers tag = None then Some s else None)"
| "interesting_string tag (Special k s) =
     (case map_of string_containers tag of
        None \<Rightarrow> if k = CData then Some s else None
      | Some c \<Rightarrow> if k = c then Some s else None)"
| "interesting_string tag (Element n a cs) = None"

definition all_strings :: "node \<Rightarrow> string list" where
  "all_strings n = List.map_filter (interesting_string (tag_name n)) (descendants n)"

definition text_of :: "node \<Rightarrow> string" where
  \<comment> \<open>\<^verbatim>\<open>tag.text\<close>: the interesting strings below the tag, concatenated\<close>
  "text_of n = concat (all_strings n)"

definition get_text_strip :: "node \<Rightarrow> string" where
  \<comment> \<open>\<^verbatim>\<open>tag.get_text(strip=True)\<close>: each string stripped, the empty ones left out\<close>
  "get_text_strip n = concat (filter (\<lambda>s. s \<noteq> []) (map py_strip (all_strings n)))"

fun decompose_all :: "string list \<Rightarrow> node list \<Rightarrow> node list" where
  \<comment> \<open>the children that are left once every descendant with one of the names is decomposed\<close>
  "decompose_all names [] = []"
| "decompose_all names (Text s # ns) = Text s # decompose_all names ns"
| "decompose_all names (Special k s # ns) = Special k s # decompose_all names ns"
| "decompose_all names (Element n a cs # ns) =
     (if n \<in> set names then decompose_all names ns
      else Element n a (decompose_all names cs) # decompose_all names ns)"

fun decompose_in :: "string list \<Rightarrow> node \<Rightarrow> node" where
  \<comment> \<open>\<^verbatim>\<open>for tag in region.find_all(names): tag.decompose()\<close>\<close>
  "decompose_in names (Element n a cs) = Element n a (decompose_all names cs)"
| "decompose_in names (Text s) = Text s"
| "decompose_in names (Special k s) = Special k s"

definition select_one :: "css \<Rightarrow> string \<Rightarrow> node \<Rightarrow> node option" where
  "select_one css sel n = (case css sel n of [] \<Rightarrow> None | x # xs \<Rightarrow> Some x)"

subsection \<open>Configuration\<close>

definition DOMAINS_TO_SKIP :: "string list" where
  "DOMAINS_TO_SKIP = [''twitter.com'']"

record selectors =
  result_link_container :: string
  link :: string
  title :: string
  snippet_container :: string

record engine_config =
  url :: string
  selectors :: selectors

definition SEARCH_ENGINES :: "(string \<times> engine_config) list" where
  "SEARCH_ENGINES =
     [(''google'', \<lparr>url = ''https://www.google.com/search?q='',
         selectors = \<lparr>result_link_container = ''div.tF2Cxc'', link = ''a'', title = ''h3'',
           snippet_container = ''div.IsZz3e''\<rparr>\<rparr>),
      (''bing'', \<lparr>url = ''https://www.bing.com/search?q='',
         selectors = \<lparr>result_link_container = ''li.b_algo'', link = ''h2 a'', title = ''h2'',
           snippet_container = ''div.b_caption p''\<rparr>\<rparr>),
      (''duckduckgo'', \<lparr>url = ''https://duckduckgo.com/html/?q='',
         selectors = \<lparr>result_link_container = ''div.results_links_deep'',
           link = ''a.result__a'', title = ''h2'', snippet_container = ''a.result__snippet''\<rparr>\<rparr>)]"

subsection \<open>The network and what a run does\<close>

text \<open>
  What \<^verbatim>\<open>requests.get\<close> does on an attempt is given by the environment: \<open>net k\<close> is the outcome
  of the request of attempt \<open>k\<close> (counted from 0): a response with its status code and parsed
  body, a \<^verbatim>\<open>Timeout\<close>, another \<^verbatim>\<open>RequestException\<close> (a refused connection, a DNS failure, a
  body that cannot be decoded), or an exception outside that hierarchy.
  \<^verbatim>\<open>raise_for_status\<close> raises \<^verbatim>\<open>HTTPError\<close> for the statuses 400 to 599.
  A run returns the events it performs, in order, with its result. The header's user agent,
  drawn at random for each attempt, decides nothing and is left out of the event.
\<close>

datatype net_outcome = Response nat node | Timeout | RequestError | OtherException

datatype message =
    UnsupportedEngine string
  | NoMainResults string
  | ServerErrorRetrying nat nat
  | HttpErrorOccurred nat
  | TimeoutRetrying nat
  | FetchErrorOccurred
  | FailedToFetch int
  | Skipping string string
  | ScrapingPage string nat
  | PageTitle string
  | PageDescription string
  | PageContentSnippet string
  | ErrorWhileScraping string nat
  | UnexpectedError string
  | FailedToScrape string int

datatype event = Get string int | Sleep nat | Print message

datatype exn = KeyError | Uncaught

datatype 'a flow = Returns 'a | Raises exn | NextAttempt

definition raise_for_status :: "nat \<Rightarrow> bool" where
  \<comment> \<open>whether \<^verbatim>\<open>response.raise_for_status()\<close> raises \<^verbatim>\<open>HTTPError\<close>\<close>
  "raise_for_status status = (400 \<le> status \<and> status < 600)"

definition range_py :: "int \<Rightarrow> nat list" where
  \<comment> \<open>\<^verbatim>\<open>range(retries)\<close>: empty when \<^verbatim>\<open>retries\<close> is not positive\<close>
  "range_py n = [0..<nat n]"

subsection \<open>fetch_search_results\<close>

definition container_result :: "css \<Rightarrow> selectors \<Rightarrow> node \<Rightarrow> pydict option" where
  \<comment> \<open>the body of the loop over the result containers: the entry it appends, if any\<close>
  "container_result css sel link_container =
     (let link_elem = select_one css (link sel) link_container;
          title_elem = select_one css (title sel) link_container;
          snippet_elem = select_one css (snippet_container sel) link_container;
          link_href = (case link_elem of None \<Rightarrow> None | Some l \<Rightarrow> attr_get l ''href'');
          title_text = (case title_elem of None \<Rightarrow> ''No title found'' | Some t \<Rightarrow> text_of t);
          snippet_text =
            (case snippet_elem of None \<Rightarrow> ''No snippet found'' | Some s \<Rightarrow> text_of s)
      in case link_href of
           None \<Rightarrow> None
         | Some href \<Rightarrow>
             if href \<noteq> [] \<and> title_text \<noteq> []
             then Some [(''url'', PStr href),
                        (''title'', PStr (clean_text (PStr title_text))),
                        (''snippet'', PStr (clean_text (PStr snippet_text)))]
             else None)"

fun extract_results :: "css \<Rightarrow> selectors \<Rightarrow> node list \<Rightarrow> pydict list \<Rightarrow> pydict list" where
  "extract_results css sel [] results = results"
| "extract_results css sel (link_container # rest) results =
     (case container_result css sel link_container of
        Some r \<Rightarrow> extract_results css sel rest (results @ [r])
      | None \<Rightarrow> extract_results css sel rest results)"

definition search_attempt ::
  "css \<Rightarrow> string \<Rightarrow> selectors \<Rightarrow> nat \<Rightarrow> net_outcome \<Rightarrow> event list \<times> pydict list flow" where
  "search_attempt css search_engine sel attempt outcome =
     (case outcome of
        Response status soup \<Rightarrow>
          if raise_for_status status then
            (if status \<in> {500, 503}
             then ([Print (ServerErrorRetrying status (attempt + 1)), Sleep (2 ^ attempt)],
                   NextAttempt)
             else ([Print (HttpErrorOccurred status)], Returns []))
          else
            (let result_links = css (result_link_container sel) soup
             in if result_links \<noteq> []
                then ([], Returns (extract_results css sel result_links []))
                else ([Print (NoMainResults search_engine)], Returns []))
      | Timeout \<Rightarrow>
          ([Print (TimeoutRetrying (attempt + 1)), Sleep (2 ^ attempt)], NextAttempt)
      | RequestError \<Rightarrow> ([Print FetchErrorOccurred], Returns [])
      | OtherException \<Rightarrow> ([], Raises Uncaught))"

fun search_loop ::
  "css \<Rightarrow> string \<Rightarrow> selectors \<Rightarrow> string \<Rightarrow> int \<Rightarrow> int \<Rightarrow> (nat \<Rightarrow> net_outcome) \<Rightarrow> nat list
     \<Rightarrow> event list \<times> (exn + pydict list)" where
  "search_loop css search_engine sel search_url timeout_seconds retries net [] =
     ([Print (FailedToFetch retries)], Inr [])"
| "search_loop css search_engine sel search_url timeout_seconds retries net (attempt # rest) =
     (case search_attempt css search_engine sel attempt (net attempt) of
        (evs, Returns r) \<Rightarrow> (Get search_url timeout_seconds # evs, Inr r)
      | (evs, Raises e) \<Rightarrow> (Get search_url timeout_seconds # evs, Inl e)
      | (evs, NextAttempt) \<Rightarrow>
          (case search_loop css search_engine sel search_url timeout_seconds retries net rest of
             (evs', r) \<Rightarrow> (Get search_url timeout_seconds # evs @ evs', r)))"

definition fetch_search_results ::
  "css \<Rightarrow> string \<Rightarrow> string \<Rightarrow> int \<Rightarrow> int \<Rightarrow> (nat \<Rightarrow> net_outcome)
     \<Rightarrow> event list \<times> (exn + pydict list)" where
  "fetch_search_results css query search_engine timeout_seconds retries net =
     (let (pre, search_engine) =
            (if map_of SEARCH_ENGINES search_engine = None
             then ([Print (UnsupportedEngine search_engine)], ''google'')
             else ([], search_engine))
      in case map_of SEARCH_ENGINES search_engine of
           None \<Rightarrow> (pre, Inl KeyError)
         | Some engine_config \<Rightarrow>
             (case search_loop css search_engine (selectors engine_config)
                     (url engine_config @ query) timeout_seconds retries net (range_py retries) of
                (evs, r) \<Rightarrow> (pre @ evs, r)))"

subsection \<open>scrape_page\<close>

fun skip_domain :: "string list \<Rightarrow> string \<Rightarrow> string option" where
  \<comment> \<open>the first entry of the skip list that occurs in the URL\<close>
  "skip_domain [] page_url = None"
| "skip_domain (domain # rest) page_url =
     (if py_in domain page_url then Some domain else skip_domain rest page_url)"

definition page_title :: "node \<Rightarrow> string" where
  "page_title soup =
     (case find_tag ''title'' soup of Some t \<Rightarrow> get_text_strip t | None \<Rightarrow> ''No title found'')"

definition page_description :: "node \<Rightarrow> exn + string" where
  \<comment> \<open>\<^verbatim>\<open>meta_description["content"]\<close> raises \<^verbatim>\<open>KeyError\<close> when the tag has no such attribute\<close>
  "page_description soup =
     (case find_meta_description soup of
        Some meta_description \<Rightarrow>
          (case attr_get meta_description ''content'' of
             Some c \<Rightarrow> Inr c
           | None \<Rightarrow> Inl KeyError)
      | None \<Rightarrow> Inr ''No description found'')"

definition main_content_tags :: "node \<Rightarrow> node option" where
  \<comment> \<open>\<^verbatim>\<open>soup.find('main') or soup.find('article') or soup.body\<close>; a tag is always true\<close>
  "main_content_tags soup =
     (case find_tag ''main'' soup of
        Some m \<Rightarrow> Some m
      | None \<Rightarrow>
          (case find_tag ''article'' soup of
             Some a \<Rightarrow> Some a
           | None \<Rightarrow> find_tag ''body'' soup))"

definition irrelevant_tags :: "string list" where
  "irrelevant_tags = [''header'', ''footer'', ''nav'', ''aside'', ''script'', ''style'']"

definition content_tags :: "string list" where
  "content_tags = [''p'', ''h1'', ''h2'', ''h3'', ''h4'', ''h5'', ''h6'', ''li'']"

definition page_contents :: "node \<Rightarrow> string" where
  "page_contents soup =
     (case main_content_tags soup of
        Some region \<Rightarrow>
          py_join '' ''
            (map get_text_strip (find_all content_tags (decompose_in irrelevant_tags region)))
      | None \<Rightarrow> ''No content found in main tags.'')"

definition request_failed :: "string \<Rightarrow> bool \<Rightarrow> nat \<Rightarrow> event list \<times> pydict option flow" where
  \<comment> \<open>the handler of \<^verbatim>\<open>requests.exceptions.RequestException\<close>\<close>
  "request_failed page_url verbose attempt =
     ((if verbose then [Print (ErrorWhileScraping page_url (attempt + 1))] else [])
        @ [Sleep (2 ^ attempt)], NextAttempt)"

definition scrape_attempt ::
  "string \<Rightarrow> bool \<Rightarrow> nat \<Rightarrow> net_outcome \<Rightarrow> event list \<times> pydict option flow" where
  "scrape_attempt page_url verbose attempt outcome =
     (case outcome of
        Response status soup \<Rightarrow>
          if raise_for_status status then request_failed page_url verbose attempt
          else
            (case page_description soup of
               Inl e \<Rightarrow> ((if verbose then [Print (UnexpectedError page_url)] else []),
                          Returns None)
             | Inr description \<Rightarrow>
                 (let t = clean_text (PStr (page_title soup));
                      d = clean_text (PStr description);
                      c = clean_text (PStr (page_contents soup))
                  in ((if verbose
                       then [Print (PageTitle t), Print (PageDescription d),
                             Print (PageContentSnippet (take 200 c @ ''...''))]
                       else []),
                      Returns (Some [(''url'', PStr page_url), (''title'', PStr t),
                                     (''description'', PStr d), (''full_content'', PStr c)]))))
      | Timeout \<Rightarrow> request_failed page_url verbose attempt
      | RequestError \<Rightarrow> request_failed page_url verbose attempt
      | OtherException \<Rightarrow>
          ((if verbose then [Print (UnexpectedError page_url)] else []), Returns None))"

fun scrape_loop ::
  "string \<Rightarrow> bool \<Rightarrow> int \<Rightarrow> int \<Rightarrow> (nat \<Rightarrow> net_outcome) \<Rightarrow> nat list
     \<Rightarrow> event list \<times> pydict option" where
  "scrape_loop page_url verbose timeout_seconds retries net [] =
     ((if verbose then [Print (FailedToScrape page_url retries)] else []), None)"
| "scrape_loop page_url verbose timeout_seconds retries net (attempt # rest) =
     (let start = (if verbose then [Print (ScrapingPage page_url (attempt + 1))] else [])
                    @ [Get page_url timeout_seconds]
      in case scrape_attempt page_url verbose attempt (net attempt) of
           (evs, Returns r) \<Rightarrow> (start @ evs, r)
         | (evs, Raises e) \<Rightarrow> (start @ evs, None)
         | (evs, NextAttempt) \<Rightarrow>
             (case scrape_loop page_url verbose timeout_seconds retries net rest of
                (evs', r) \<Rightarrow> (start @ evs @ evs', r)))"

definition scrape_page ::
  "string \<Rightarrow> bool \<Rightarrow> int \<Rightarrow> int \<Rightarrow> (nat \<Rightarrow> net_outcome) \<Rightarrow> event list \<times> pydict option" where
  "scrape_page page_url verbose timeout_seconds retries net =
     (case skip_domain DOMAINS_TO_SKIP page_url of
        Some domain \<Rightarrow> ((if verbose then [Print (Skipping domain page_url)] else []), None)
      | None \<Rightarrow> scrape_loop page_url verbose timeout_seconds retries net (range_py retries))"

subsection \<open>process_single_query: collecting the scraped pages\<close>

text \<open>
  The pool hands the results of the \<^verbatim>\<open>scrape_page\<close> calls back in completion order; the
  loop over them keeps the results that are true (neither \<^verbatim>\<open>None\<close> nor an empty dictionary).
\<close>

fun collect_results :: "pydict option list \<Rightarrow> pydict list \<Rightarrow> pydict list" where
  "collect_results [] scraped_data = scraped_data"
| "collect_results (scraped_result # rest) scraped_data =
     (case scraped_result of
        Some d \<Rightarrow>
          if d \<noteq> [] then collect_results rest (scraped_data @ [d])
          else collect_results rest scraped_data
      | None \<Rightarrow> collect_results rest scraped_data)"

subsection \<open>process_scraped_data\<close>

fun filter_fields :: "pydict \<Rightarrow> string list \<Rightarrow> pydict \<Rightarrow> pydict" where
  \<comment> \<open>\<^verbatim>\<open>{field: item.get(field) for field in fields if field in item}\<close>\<close>
  "filter_fields item [] filtered_item = filtered_item"
| "filter_fields item (field # fields') filtered_item =
     (if dict_has item field
      then filter_fields item fields' (dict_set filtered_item field (dict_get item field))
      else filter_fields item fields' filtered_item)"

fun fill_missing :: "string list \<Rightarrow> pydict \<Rightarrow> pydict" where
  "fill_missing [] filtered_item = filtered_item"
| "fill_missing (field # fields') filtered_item =
     (if \<not> dict_has filtered_item field
      then fill_missing fields' (dict_set filtered_item field (PStr ''Field not found''))
      else fill_missing fields' filtered_item)"

fun process_loop :: "pydict list \<Rightarrow> string list \<Rightarrow> pydict list \<Rightarrow> pydict list" where
  "process_loop [] fields' processed_data = processed_data"
| "process_loop (item # rest) fields' processed_data =
     (if truthy (dict_get item ''url'')
      then process_loop rest fields'
             (processed_data @ [fill_missing fields' (filter_fields item fields' [])])
      else process_loop rest fields' processed_data)"

definition process_scraped_data :: "pydict list \<Rightarrow> string list \<Rightarrow> pydict list" where
  "process_scraped_data scraped_data fields' = process_loop scraped_data fields' []"

section \<open>Auxiliary notions for the proofs\<close>

definition clean_words :: "string list \<Rightarrow> bool" where
  "clean_words ws = (\<forall>w\<in>set ws. w \<noteq> [] \<and> (\<forall>c\<in>set w. \<not> is_space c))"

fun no_ws_run :: "string \<Rightarrow> bool" where
  "no_ws_run (a # b # s) = (\<not> (is_space a \<and> is_space b) \<and> no_ws_run (b # s))"
| "no_ws_run _ = True"

fun first_occurrences :: "'a list \<Rightarrow> 'a list" where
  \<comment> \<open>a list without its repetitions: each element at its first position\<close>
  "first_occurrences [] = []"
| "first_occurrences (x # xs) = x # first_occurrences (removeAll x xs)"

fun add_keys :: "string list \<Rightarrow> string list \<Rightarrow> string list" where
  \<comment> \<open>the keys of a dictionary after one assignment for each of the given keys\<close>
  "add_keys ks [] = ks"
| "add_keys ks (f # fs) = add_keys (if f \<in> set ks then ks else ks @ [f]) fs"

definition key_order :: "pydict \<Rightarrow> string list \<Rightarrow> string list" where
  \<comment> \<open>the requested fields the record has, then the requested fields it lacks\<close>
  "key_order item fs =
     first_occurrences (filter (dict_has item) fs)
       @ first_occurrences (filter (\<lambda>f. \<not> dict_has item f) fs)"

text \<open>
  The classification of what an attempt meets, read off the handlers. In
  \<^verbatim>\<open>fetch_search_results\<close> a status 500 or 503 and a timeout are retried; every other error
  status and every other request exception end the call. In \<^verbatim>\<open>scrape_page\<close> one handler
  takes every request exception, and a second one every other exception.
\<close>

definition transient :: "net_outcome \<Rightarrow> bool" where
  "transient outcome =
     (case outcome of
        Response status soup \<Rightarrow> status \<in> {500, 503}
      | Timeout \<Rightarrow> True
      | RequestError \<Rightarrow> False
      | OtherException \<Rightarrow> False)"

definition terminal :: "net_outcome \<Rightarrow> bool" where
  "terminal outcome =
     (case outcome of
        Response status soup \<Rightarrow> raise_for_status status \<and> status \<notin> {500, 503}
      | Timeout \<Rightarrow> False
      | RequestError \<Rightarrow> True
      | OtherException \<Rightarrow> False)"

definition request_exception :: "net_outcome \<Rightarrow> bool" where
  "request_exception outcome =
     (case outcome of
        Response status soup \<Rightarrow> raise_for_status status
      | Timeout \<Rightarrow> True
      | RequestError \<Rightarrow> True
      | OtherException \<Rightarrow> False)"

definition other_exception :: "net_outcome \<Rightarrow> bool" where
  "other_exception outcome =
     (case outcome of
        Response status soup \<Rightarrow>
          \<not> raise_for_status status \<and> page_description soup = Inl KeyError
      | Timeout \<Rightarrow> False
      | RequestError \<Rightarrow> False
      | OtherException \<Rightarrow> True)"

fun is_print :: "event \<Rightarrow> bool" where
  "is_print (Print m) = True"
| "is_print (Get u t) = False"
| "is_print (Sleep n) = False"

definition io_events :: "event list \<Rightarrow> event list" where
  \<comment> \<open>the requests and the sleeps of a run, without its messages\<close>
  "io_events evs = filter (\<lambda>e. \<not> is_print e) evs"

definition effective_engine :: "string \<Rightarrow> string" where
  \<comment> \<open>the engine after the fallback for an unsupported name\<close>
  "effective_engine search_engine =
     (if map_of SEARCH_ENGINES search_engine = None then ''google'' else search_engine)"

definition engine_selectors :: "string \<Rightarrow> selectors" where
  "engine_selectors search_engine =
     (case map_of SEARCH_ENGINES (effective_engine search_engine) of
        Some engine_config \<Rightarrow> selectors engine_config
      | None \<Rightarrow> \<lparr>result_link_container = [], link = [], title = [], snippet_container = []\<rparr>)"

definition engine_url :: "string \<Rightarrow> string" where
  "engine_url search_engine =
     (case map_of SEARCH_ENGINES (effective_engine search_engine) of
        Some engine_config \<Rightarrow> url engine_config
      | None \<Rightarrow> [])"

text \<open>
  Inputs for the concrete runs: a network that answers every attempt alike, one that
  answers the first attempt differently, a selector engine for selectors of the form
  \<^verbatim>\<open>tag\<close> and \<^verbatim>\<open>tag.class\<close> (all of Google's), and a few documents.
\<close>

definition always :: "net_outcome \<Rightarrow> nat \<Rightarrow> net_outcome" where
  "always outcome attempt = outcome"

definition first_then :: "net_outcome \<Rightarrow> net_outcome \<Rightarrow> nat \<Rightarrow> net_outcome" where
  "first_then a b attempt = (if attempt = 0 then a else b)"

fun matches_simple :: "string \<Rightarrow> node \<Rightarrow> bool" where
  "matches_simple sel (Element n a cs) =
     (let tag = takeWhile (\<lambda>c. c \<noteq> CHR ''.'') sel;
          cls = drop 1 (dropWhile (\<lambda>c. c \<noteq> CHR ''.'') sel)
      in n = tag \<and>
         (cls = [] \<or>
          cls \<in> set (case map_of a ''class'' of None \<Rightarrow> [] | Some v \<Rightarrow> py_split v)))"
| "matches_simple sel (Text s) = False"
| "matches_simple sel (Special k s) = False"

definition simple_css :: css where
  "simple_css sel n = filter (matches_simple sel) (descendants n)"

definition empty_page :: node where
  "empty_page = Element ''[document]'' [] []"

definition untitled_container :: node where
  \<comment> \<open>\<^verbatim>\<open><div class="tF2Cxc"><a href="/x">Foo</a></div>\<close>\<close>
  "untitled_container =
     Element ''div'' [(''class'', ''tF2Cxc'')] [Element ''a'' [(''href'', ''/x'')] [Text ''Foo'']]"

definition untitled_results_page :: node where
  "untitled_results_page = Element ''[document]'' [] [untitled_container]"

definition hello_main :: node where
  "hello_main =
     Element ''main'' []
       [Element ''header'' [] [Text ''nav''], Element ''p'' [] [Text ''Hello  world'']]"

definition hello_page :: node where
  \<comment> \<open>\<^verbatim>\<open><main><header>nav</header><p>Hello  world</p></main>\<close>\<close>
  "hello_page = Element ''[document]'' [] [hello_main]"

definition meta_without_content_page :: node where
  \<comment> \<open>\<^verbatim>\<open><head><meta name="description"></head><body><p>x</p></body>\<close>\<close>
  "meta_without_content_page =
     Element ''[document]'' []
       [Element ''head'' [] [Element ''meta'' [(''name'', ''description'')] []],
        Element ''body'' [] [Element ''p'' [] [Text ''x'']]]"





definition comment_page :: node where
  \<comment> \<open>\<^verbatim>\<open><body><p>Hello<!-- note -->world</p></body>\<close>\<close>
  "comment_page =
     Element ''[document]'' []
       [Element ''body'' [] [Element ''p'' [] [Text ''Hello'', Special Comment '' note '', Text ''world'']]]"





section \<open>clean_text normalises whitespace\<close>

lemma py_split_Nil: "py_split [] = []"
  by (simp add: py_split.simps)

lemma py_split_skip: "py_split (dropWhile is_space s) = py_split s"
  by (simp add: py_split.simps[of s] py_split.simps[of "dropWhile is_space s"] dropWhile_idem)

lemma py_split_space_Cons: "is_space c \<Longrightarrow> py_split (c # s) = py_split s"
  using py_split_skip[of "c # s"] py_split_skip[of s] by simp

lemma py_split_word:
  assumes "w \<noteq> []" "\<forall>c\<in>set w. \<not> is_space c" "r = [] \<or> is_space (hd r)"
  shows "py_split (w @ r) = w # py_split r"
proof -
  from assms(1) obtain a v where w: "w = a # v" by (cases w) auto
  have d: "dropWhile is_space (w @ r) = w @ r" using w assms(2) by simp
  have t: "takeWhile (\<lambda>c. \<not> is_space c) (w @ r) = w"
    using assms(2,3) by (cases r) (auto simp: takeWhile_eq_all_conv)
  have e: "dropWhile (\<lambda>c. \<not> is_space c) (w @ r) = r"
    using assms(2,3) by (cases r) auto
  have "w @ r \<noteq> []" using w by simp
  then show ?thesis
    by (simp only: py_split.simps[of "w @ r"] d t e Let_def if_False)
qed

lemma clean_words_Cons:
  "clean_words (w # ws) = (w \<noteq> [] \<and> (\<forall>c\<in>set w. \<not> is_space c) \<and> clean_words ws)"
  by (auto simp: clean_words_def)

lemma py_split_clean: "clean_words (py_split s)"
proof (induction s rule: py_split.induct)
  case (1 s)
  define t where "t = dropWhile is_space s"
  show ?case
  proof (cases "t = []")
    case True
    then show ?thesis by (simp add: py_split.simps[of s] t_def clean_words_def)
  next
    case False
    then obtain c cs where tc: "t = c # cs" by (cases t) auto
    have "\<not> is_space (hd (dropWhile is_space s))"
      using False unfolding t_def by (rule hd_dropWhile)
    then have nc: "\<not> is_space c" using tc by (simp add: t_def[symmetric])
    have ih: "clean_words (py_split (dropWhile (\<lambda>c. \<not> is_space c) t))"
      using 1[OF t_def False] .
    have hd: "takeWhile (\<lambda>c. \<not> is_space c) t \<noteq> []" using tc nc by simp
    have cl: "\<forall>c\<in>set (takeWhile (\<lambda>c. \<not> is_space c) t). \<not> is_space c"
      by (auto dest: set_takeWhileD)
    have eq: "py_split s = takeWhile (\<lambda>c. \<not> is_space c) t # py_split (dropWhile (\<lambda>c. \<not> is_space c) t)"
      using False unfolding t_def by (subst py_split.simps) (simp add: Let_def)
    show ?thesis unfolding eq clean_words_Cons using ih hd cl by blast
  qed
qed

lemma split_join_clean: "clean_words ws \<Longrightarrow> py_split (py_join '' '' ws) = ws"
proof (induction "'' ''" ws rule: py_join.induct)
  case 1
  then show ?case by (simp add: py_split_Nil)
next
  case (2 x)
  then show ?case using py_split_word[of x "[]"] by (simp add: clean_words_def py_split_Nil)
next
  case (3 x y ys)
  have sp: "is_space (CHR '' '')" by (simp add: is_space_def)
  have "py_split (x @ (CHR '' '' # py_join '' '' (y # ys))) = x # py_split (CHR '' '' # py_join '' '' (y # ys))"
    using 3(2) sp by (intro py_split_word) (auto simp: clean_words_def)
  also have "py_split (CHR '' '' # py_join '' '' (y # ys)) = py_split (py_join '' '' (y # ys))"
    using sp by (rule py_split_space_Cons)
  also have "\<dots> = y # ys" using 3 by (simp add: clean_words_def)
  finally show ?case by simp
qed

lemma join_clean_ends:
  "clean_words ws \<Longrightarrow> py_join '' '' ws \<noteq> [] \<Longrightarrow>
     \<not> is_space (hd (py_join '' '' ws)) \<and> \<not> is_space (last (py_join '' '' ws))"
proof (induction "'' ''" ws rule: py_join.induct)
  case 1
  then show ?case by simp
next
  case (2 x)
  then show ?case using hd_in_set[of x] last_in_set[of x] by (simp add: clean_words_def)
next
  case (3 x y ys)
  have yne: "py_join '' '' (y # ys) \<noteq> []" using 3(2) by (cases ys) (auto simp: clean_words_def)
  have cw: "clean_words (y # ys)" using 3(2) by (simp add: clean_words_def)
  have x: "x \<noteq> []" "\<not> is_space (hd x)"
    using 3(2) hd_in_set[of x] by (auto simp: clean_words_def)
  have h: "hd (py_join '' '' (x # y # ys)) = hd x" using x(1) by simp
  have l: "last (py_join '' '' (x # y # ys)) = last (py_join '' '' (y # ys))"
    using yne by simp
  show ?case using 3(1)[OF cw yne] x(2) unfolding h l by blast
qed

lemma py_strip_id: "s = [] \<or> (\<not> is_space (hd s) \<and> \<not> is_space (last s)) \<Longrightarrow> py_strip s = s"
proof (cases s rule: rev_cases)
  case Nil
  then show ?thesis by (simp add: py_strip_def)
next
  case (snoc ys y)
  assume "s = [] \<or> (\<not> is_space (hd s) \<and> \<not> is_space (last s))"
  then have h: "\<not> is_space (hd s)" and l: "\<not> is_space y" using snoc by auto
  have "dropWhile is_space s = s" using h by (cases s) auto
  then show ?thesis using l snoc by (simp add: py_strip_def)
qed

lemma clean_text_join: "clean_text (PStr s) = py_join '' '' (py_split s)"
  using join_clean_ends[OF py_split_clean[of s]] py_strip_id[of "py_join '' '' (py_split s)"]
  by auto

lemma no_ws_run_Cons:
  "no_ws_run (a # t) = ((t \<noteq> [] \<longrightarrow> \<not> (is_space a \<and> is_space (hd t))) \<and> no_ws_run t)"
  by (cases t) auto

lemma no_ws_run_append_clean:
  "\<forall>c\<in>set x. \<not> is_space c \<Longrightarrow> no_ws_run (x @ s) = no_ws_run s"
proof (induction x)
  case Nil
  then show ?case by simp
next
  case (Cons a x)
  then show ?case by (simp add: no_ws_run_Cons del: no_ws_run.simps)
qed

lemma join_no_ws_run: "clean_words ws \<Longrightarrow> no_ws_run (py_join '' '' ws)"
proof (induction "'' ''" ws rule: py_join.induct)
  case 1
  then show ?case by simp
next
  case (2 x)
  then show ?case using no_ws_run_append_clean[of x "[]"] by (simp add: clean_words_def)
next
  case (3 x y ys)
  have yne: "py_join '' '' (y # ys) \<noteq> []" using 3(2) by (cases ys) (auto simp: clean_words_def)
  have cw: "clean_words (y # ys)" using 3(2) by (simp add: clean_words_def)
  have "\<not> is_space (hd (py_join '' '' (y # ys)))" using join_clean_ends[OF cw yne] by simp
  moreover have "no_ws_run (py_join '' '' (y # ys))" using 3(1)[OF cw] .
  ultimately have "no_ws_run (CHR '' '' # py_join '' '' (y # ys))"
    using yne by (cases "py_join '' '' (y # ys)") auto
  then show ?case using no_ws_run_append_clean[of x] 3(2) by (simp add: clean_words_def)
qed

lemma no_ws_run_nth:
  "no_ws_run r \<Longrightarrow> Suc i < length r \<Longrightarrow> \<not> (is_space (r ! i) \<and> is_space (r ! Suc i))"
proof (induction r arbitrary: i rule: no_ws_run.induct)
  case (1 a b s)
  then show ?case by (cases i) auto
qed auto

lemma join_space_only: "clean_words ws \<Longrightarrow> c \<in> set (py_join '' '' ws) \<Longrightarrow> is_space c \<Longrightarrow> c = CHR '' ''"
  by (induction "'' ''" ws rule: py_join.induct) (auto simp: clean_words_def)

lemma py_split_all_space:
  assumes "\<forall>c\<in>set g. is_space c"
  shows "py_split (g @ b) = py_split b"
proof -
  have "dropWhile is_space (g @ b) = dropWhile is_space b" using assms by simp
  then show ?thesis using py_split_skip[of "g @ b"] py_split_skip[of b] by simp
qed

lemma py_split_unfold:
  assumes "dropWhile is_space a \<noteq> []"
  shows "takeWhile (\<lambda>c. \<not> is_space c) (dropWhile is_space a) \<noteq> []"
    and "py_split a = takeWhile (\<lambda>c. \<not> is_space c) (dropWhile is_space a)
                        # py_split (dropWhile (\<lambda>c. \<not> is_space c) (dropWhile is_space a))"
proof -
  have "\<not> is_space (hd (dropWhile is_space a))" using assms by (rule hd_dropWhile)
  then show "takeWhile (\<lambda>c. \<not> is_space c) (dropWhile is_space a) \<noteq> []"
    using assms by (cases "dropWhile is_space a") auto
  show "py_split a = takeWhile (\<lambda>c. \<not> is_space c) (dropWhile is_space a)
                        # py_split (dropWhile (\<lambda>c. \<not> is_space c) (dropWhile is_space a))"
    using assms by (subst py_split.simps) (simp add: Let_def)
qed

lemma py_split_gap:
  assumes "g \<noteq> []" "\<forall>c\<in>set g. is_space c"
  shows "py_split (a @ g @ b) = py_split a @ py_split b"
proof (induction a rule: py_split.induct)
  case (1 a)
  define t where "t = dropWhile is_space a"
  show ?case
  proof (cases "t = []")
    case True
    then have all: "\<forall>c\<in>set (a @ g). is_space c" using assms(2) by (auto simp: t_def)
    have "py_split a = []" using True by (simp add: py_split.simps[of a] t_def)
    moreover have "py_split ((a @ g) @ b) = py_split b" using all by (rule py_split_all_space)
    ultimately show ?thesis by simp
  next
    case False
    define w where "w = takeWhile (\<lambda>c. \<not> is_space c) t"
    define r where "r = dropWhile (\<lambda>c. \<not> is_space c) t"
    have tw: "t = w @ r" by (simp add: w_def r_def)
    have wne: "w \<noteq> []" and pa: "py_split a = w # py_split r"
      using py_split_unfold[of a] False by (simp_all add: t_def w_def r_def)
    have wc: "\<forall>c\<in>set w. \<not> is_space c" by (auto simp: w_def dest: set_takeWhileD)
    have rs: "r = [] \<or> is_space (hd r)"
      using hd_dropWhile[of "\<lambda>c. \<not> is_space c" t] by (auto simp: r_def)
    have gs: "is_space (hd g)" using assms by (cases g) auto
    have hs: "r @ g @ b = [] \<or> is_space (hd (r @ g @ b))"
      using rs gs assms(1) by (cases r) auto
    obtain x where "x \<in> set a" "\<not> is_space x"
      using False by (auto simp: t_def dropWhile_eq_Nil_conv)
    then have "dropWhile is_space (a @ g @ b) = t @ g @ b"
      by (simp add: t_def dropWhile_append1)
    then have "py_split (a @ g @ b) = py_split (w @ (r @ g @ b))"
      using py_split_skip[of "a @ g @ b"] by (simp add: tw)
    also have "\<dots> = w # py_split (r @ g @ b)" using wne wc hs by (rule py_split_word)
    also have "py_split (r @ g @ b) = py_split r @ py_split b"
      using 1[OF t_def False] by (simp only: r_def)
    finally show ?thesis by (simp add: pa)
  qed
qed

lemma filter_dropWhile_not:
  "filter (\<lambda>c. \<not> P c) (dropWhile P s) = filter (\<lambda>c. \<not> P c) s"
  by (induction s) simp_all

lemma concat_py_split: "concat (py_split s) = filter (\<lambda>c. \<not> is_space c) s"
proof (induction s rule: py_split.induct)
  case (1 s)
  define t where "t = dropWhile is_space s"
  show ?case
  proof (cases "t = []")
    case True
    then have "py_split s = []" by (simp add: py_split.simps[of s] t_def)
    moreover have "filter (\<lambda>c. \<not> is_space c) s = []"
      using True by (simp add: t_def filter_empty_conv dropWhile_eq_Nil_conv)
    ultimately show ?thesis by simp
  next
    case False
    define w where "w = takeWhile (\<lambda>c. \<not> is_space c) t"
    define r where "r = dropWhile (\<lambda>c. \<not> is_space c) t"
    have tw: "t = w @ r" by (simp add: w_def r_def)
    have pa: "py_split s = w # py_split r"
      using py_split_unfold(2)[of s] False by (simp add: t_def w_def r_def)
    have wc: "filter (\<lambda>c. \<not> is_space c) w = w"
      by (simp add: filter_id_conv w_def) (auto dest: set_takeWhileD)
    have ih: "concat (py_split r) = filter (\<lambda>c. \<not> is_space c) r"
      using 1[OF t_def False] by (simp only: r_def)
    have "filter (\<lambda>c. \<not> is_space c) s = filter (\<lambda>c. \<not> is_space c) t"
      by (simp only: t_def filter_dropWhile_not)
    also have "\<dots> = w @ filter (\<lambda>c. \<not> is_space c) r" by (simp add: tw wc)
    finally show ?thesis by (simp add: pa ih)
  qed
qed

lemma filter_join_clean:
  "clean_words ws \<Longrightarrow> filter (\<lambda>c. \<not> is_space c) (py_join '' '' ws) = concat ws"
proof (induction "'' ''" ws rule: py_join.induct)
  case 1
  show ?case by simp
next
  case (2 x)
  then show ?case by (simp add: clean_words_def filter_id_conv)
next
  case (3 x y ys)
  have sp: "is_space (CHR '' '')" by (simp add: is_space_def)
  have cw: "clean_words (y # ys)" using 3(2) by (simp add: clean_words_def)
  have x: "filter (\<lambda>c. \<not> is_space c) x = x" using 3(2) by (simp add: clean_words_def filter_id_conv)
  show ?case using 3(1)[OF cw] x sp by simp
qed

lemma join_clean_Nil: "clean_words ws \<Longrightarrow> py_join '' '' ws = [] \<longleftrightarrow> ws = []"
proof (cases ws)
  case Nil
  then show ?thesis by simp
next
  case (Cons w ws')
  assume "clean_words ws"
  then have "w \<noteq> []" using Cons by (simp add: clean_words_def)
  then show ?thesis using Cons by (cases ws') simp_all
qed

lemma clean_text_word:
  assumes "w \<noteq> []" "\<forall>c\<in>set w. \<not> is_space c" "r = [] \<or> is_space (hd r)"
  shows "clean_text (PStr (w @ r))
           = (if clean_text (PStr r) = [] then w else w @ '' '' @ clean_text (PStr r))"
proof -
  have j: "clean_text (PStr (w @ r)) = py_join '' '' (w # py_split r)"
    unfolding clean_text_join py_split_word[OF assms] ..
  show ?thesis
  proof (cases "py_split r")
    case Nil
    then have "clean_text (PStr r) = []" unfolding clean_text_join by simp
    then show ?thesis using j Nil by (simp del: clean_text.simps)
  next
    case (Cons x xs)
    have c: "clean_text (PStr r) = py_join '' '' (x # xs)" unfolding clean_text_join Cons ..
    have "clean_words (x # xs)" using py_split_clean[of r] unfolding Cons .
    then have "py_join '' '' (x # xs) \<noteq> []" using join_clean_Nil[of "x # xs"] by blast
    then show ?thesis using j unfolding c Cons by simp
  qed
qed

lemma clean_text_collapse:
  assumes "g \<noteq> []" "\<forall>c\<in>set g. is_space c"
  shows "clean_text (PStr (a @ g @ b)) = clean_text (PStr (a @ '' '' @ b))"
proof -
  have sp: "'' '' \<noteq> []" "\<forall>c\<in>set '' ''. is_space c" by (simp_all add: is_space_def)
  show ?thesis unfolding clean_text_join py_split_gap[OF assms] py_split_gap[OF sp] ..
qed

lemma clean_text_example:
  "clean_text (PStr ('' Hello '' @ [CHR 0x0A, CHR 0x09] @ ''world '')) = ''Hello world''"
  by code_simp

text \<open>
  Claim C9. \<^verbatim>\<open>clean_text\<close> is total and idempotent: a value that is not a string gives the
  empty string; for a string, the result neither starts nor ends with whitespace, has no two
  adjacent whitespace characters, its only whitespace character is the single space, and
  cleaning the result again changes nothing. The result is tied to the input: the characters
  that are not whitespace are those of the input, in order; whitespace at the start is
  dropped; a word (a run without whitespace that ends the string or is followed by
  whitespace) is kept as it is, followed by one space and the cleaned rest when that rest
  still holds a word; and any run of whitespace, newlines and tabs included, gives the same
  result as a single space in its place.
\<close>

theorem clean_text_total_idempotent:
  "(\<forall>v. (\<forall>s. v \<noteq> PStr s) \<longrightarrow> clean_text v = '''') \<and>
   (\<forall>s. (clean_text (PStr s) \<noteq> [] \<longrightarrow>
            \<not> is_space (hd (clean_text (PStr s))) \<and> \<not> is_space (last (clean_text (PStr s)))) \<and>
        (\<forall>i. Suc i < length (clean_text (PStr s)) \<longrightarrow>
            \<not> (is_space (clean_text (PStr s) ! i) \<and> is_space (clean_text (PStr s) ! Suc i))) \<and>
        (\<forall>c\<in>set (clean_text (PStr s)). is_space c \<longrightarrow> c = CHR '' '') \<and>
        clean_text (PStr (clean_text (PStr s))) = clean_text (PStr s)) \<and>
   (\<forall>s. filter (\<lambda>c. \<not> is_space c) (clean_text (PStr s)) = filter (\<lambda>c. \<not> is_space c) s) \<and>
   clean_text (PStr []) = [] \<and>
   (\<forall>c s. is_space c \<longrightarrow> clean_text (PStr (c # s)) = clean_text (PStr s)) \<and>
   (\<forall>w r. w \<noteq> [] \<and> (\<forall>c\<in>set w. \<not> is_space c) \<and> (r = [] \<or> is_space (hd r)) \<longrightarrow>
      clean_text (PStr (w @ r))
        = (if clean_text (PStr r) = [] then w else w @ '' '' @ clean_text (PStr r))) \<and>
   (\<forall>a g b. g \<noteq> [] \<and> (\<forall>c\<in>set g. is_space c) \<longrightarrow>
      clean_text (PStr (a @ g @ b)) = clean_text (PStr (a @ '' '' @ b))) \<and>
   clean_text (PStr ('' Hello '' @ [CHR 0x0A, CHR 0x09] @ ''world '')) = ''Hello world''"
proof (intro conjI allI impI ballI)
  fix v assume "\<forall>s. v \<noteq> PStr s"
  then show "clean_text v = ''''" by (cases v) auto
next
  fix s assume "clean_text (PStr s) \<noteq> []"
  then have "py_join '' '' (py_split s) \<noteq> []" unfolding clean_text_join .
  from join_clean_ends[OF py_split_clean this]
  show "\<not> is_space (hd (clean_text (PStr s)))" "\<not> is_space (last (clean_text (PStr s)))"
    unfolding clean_text_join by blast+
next
  fix s i assume "Suc i < length (clean_text (PStr s))"
  then have "Suc i < length (py_join '' '' (py_split s))" unfolding clean_text_join .
  from no_ws_run_nth[OF join_no_ws_run[OF py_split_clean] this]
  show "\<not> (is_space (clean_text (PStr s) ! i) \<and> is_space (clean_text (PStr s) ! Suc i))"
    unfolding clean_text_join .
next
  fix s c assume "c \<in> set (clean_text (PStr s))" and sp: "is_space c"
  then have "c \<in> set (py_join '' '' (py_split s))" unfolding clean_text_join by blast
  from join_space_only[OF py_split_clean this sp] show "c = CHR '' ''" .
next
  fix s
  have "clean_text (PStr (py_join '' '' (py_split s))) = py_join '' '' (py_split s)"
    unfolding clean_text_join split_join_clean[OF py_split_clean] ..
  then show "clean_text (PStr (clean_text (PStr s))) = clean_text (PStr s)"
    unfolding clean_text_join[of s] .
next
  fix s
  show "filter (\<lambda>c. \<not> is_space c) (clean_text (PStr s)) = filter (\<lambda>c. \<not> is_space c) s"
    unfolding clean_text_join filter_join_clean[OF py_split_clean] concat_py_split ..
next
  show "clean_text (PStr []) = []" unfolding clean_text_join py_split_Nil by simp
next
  fix c s assume "is_space c"
  then show "clean_text (PStr (c # s)) = clean_text (PStr s)"
    unfolding clean_text_join by (simp only: py_split_space_Cons)
next
  fix w r assume "w \<noteq> [] \<and> (\<forall>c\<in>set w. \<not> is_space c) \<and> (r = [] \<or> is_space (hd r))"
  then show "clean_text (PStr (w @ r))
        = (if clean_text (PStr r) = [] then w else w @ '' '' @ clean_text (PStr r))"
    using clean_text_word[of w r] by blast
next
  fix a g b assume "g \<noteq> [] \<and> (\<forall>c\<in>set g. is_space c)"
  then show "clean_text (PStr (a @ g @ b)) = clean_text (PStr (a @ '' '' @ b))"
    using clean_text_collapse[of g a b] by blast
next
  show "clean_text (PStr ('' Hello '' @ [CHR 0x0A, CHR 0x09] @ ''world '')) = ''Hello world''"
    by (rule clean_text_example)
qed

theorem clean_text_total_idempotent_witness:
  "(\<forall>s. PNone \<noteq> PStr s) \<and> clean_text PNone = '''' \<and>
   clean_text (PStr '' a  b '') \<noteq> [] \<and>
   \<not> is_space (hd (clean_text (PStr '' a  b ''))) \<and>
   \<not> is_space (last (clean_text (PStr '' a  b ''))) \<and>
   Suc 1 < length (clean_text (PStr '' a  b '')) \<and>
   \<not> (is_space (clean_text (PStr '' a  b '') ! 1) \<and>
      is_space (clean_text (PStr '' a  b '') ! Suc 1)) \<and>
   CHR '' '' \<in> set (clean_text (PStr '' a  b '')) \<and> is_space (CHR '' '') \<and>
   clean_text (PStr (clean_text (PStr '' a  b ''))) = clean_text (PStr '' a  b '') \<and>
   clean_text (PStr (CHR '' '' # ''a'')) = clean_text (PStr ''a'') \<and>
   ''ab'' \<noteq> [] \<and> \<not> is_space (CHR ''a'') \<and> \<not> is_space (CHR ''b'') \<and>
   is_space (hd ''  c'') \<and>
   clean_text (PStr (''ab'' @ ''  c''))
     = (if clean_text (PStr ''  c'') = [] then ''ab'' else ''ab'' @ '' '' @ clean_text (PStr ''  c'')) \<and>
   clean_text (PStr (''ab'' @ ''  c'')) = ''ab c'' \<and>
   [CHR 0x0A, CHR 0x09] \<noteq> [] \<and> is_space (CHR 0x0A) \<and> is_space (CHR 0x09) \<and>
   clean_text (PStr (''a'' @ [CHR 0x0A, CHR 0x09] @ ''b'')) = clean_text (PStr (''a'' @ '' '' @ ''b''))"
proof -
  have e: "clean_text (PStr '' a  b '') = ''a b''" by code_simp
  have n: "\<forall>s. PNone \<noteq> PStr s" by simp
  have sp: "is_space (CHR '' '')" by (simp add: is_space_def)
  have ne: "clean_text (PStr '' a  b '') \<noteq> []" unfolding e by simp
  have len: "Suc 1 < length (clean_text (PStr '' a  b ''))" unfolding e by simp
  have mem: "CHR '' '' \<in> set (clean_text (PStr '' a  b ''))" unfolding e by simp
  have w1: "''ab'' \<noteq> []" by simp
  have w2: "\<not> is_space (CHR ''a'')" "\<not> is_space (CHR ''b'')" by (simp_all add: is_space_def)
  then have w2': "\<forall>c\<in>set ''ab''. \<not> is_space c" by simp
  have w3: "is_space (hd ''  c'')" by (simp add: is_space_def)
  have w4: "clean_text (PStr (''ab'' @ ''  c'')) = ''ab c''" by code_simp
  have g1: "[CHR 0x0A, CHR 0x09] \<noteq> []" by simp
  have g2: "is_space (CHR 0x0A)" "is_space (CHR 0x09)" by (simp_all add: is_space_def)
  then have g2': "\<forall>c\<in>set [CHR 0x0A, CHR 0x09]. is_space c" by simp
  note t = clean_text_total_idempotent
  note t1 = t[THEN conjunct1]
  note t2 = t[THEN conjunct2, THEN conjunct1, THEN spec, of "'' a  b ''"]
  note t5 = t[THEN conjunct2, THEN conjunct2, THEN conjunct2, THEN conjunct2, THEN conjunct1]
  note t6 = t[THEN conjunct2, THEN conjunct2, THEN conjunct2, THEN conjunct2, THEN conjunct2,
      THEN conjunct1]
  note t7 = t[THEN conjunct2, THEN conjunct2, THEN conjunct2, THEN conjunct2, THEN conjunct2,
      THEN conjunct2, THEN conjunct1]
  from t1[THEN spec, of PNone] n have a: "clean_text PNone = ''''" by (rule mp)
  from t2 ne have b: "\<not> is_space (hd (clean_text (PStr '' a  b '')))"
    "\<not> is_space (last (clean_text (PStr '' a  b '')))" by blast+
  from t2 len have c: "\<not> (is_space (clean_text (PStr '' a  b '') ! 1) \<and>
      is_space (clean_text (PStr '' a  b '') ! Suc 1))" by blast
  from t2 have d: "clean_text (PStr (clean_text (PStr '' a  b ''))) = clean_text (PStr '' a  b '')"
    by blast
  from t5[THEN spec, of "CHR '' ''", THEN spec, of "''a''"] sp
  have l: "clean_text (PStr (CHR '' '' # ''a'')) = clean_text (PStr ''a'')" by (rule mp)
  have w5: "''ab'' \<noteq> [] \<and> (\<forall>c\<in>set ''ab''. \<not> is_space c) \<and>
      (''  c'' = [] \<or> is_space (hd ''  c''))"
    using w1 w2' w3 by blast
  from t6[THEN spec, of "''ab''", THEN spec, of "''  c''"] w5
  have m: "clean_text (PStr (''ab'' @ ''  c''))
     = (if clean_text (PStr ''  c'') = [] then ''ab'' else ''ab'' @ '' '' @ clean_text (PStr ''  c''))"
    by (rule mp)
  have g3: "[CHR 0x0A, CHR 0x09] \<noteq> [] \<and> (\<forall>c\<in>set [CHR 0x0A, CHR 0x09]. is_space c)"
    using g1 g2' by blast
  from t7[THEN spec, of "''a''", THEN spec, of "[CHR 0x0A, CHR 0x09]", THEN spec, of "''b''"] g3
  have k: "clean_text (PStr (''a'' @ [CHR 0x0A, CHR 0x09] @ ''b''))
     = clean_text (PStr (''a'' @ '' '' @ ''b''))"
    by (rule mp)
  show ?thesis
    by (intro conjI) (fact n a ne b len c mem sp d l w1 w2 w3 m w4 g1 g2 k)+
qed

section \<open>process_scraped_data: projection onto the requested fields\<close>

lemma dict_has_keys: "dict_has d k \<longleftrightarrow> k \<in> set (map fst d)"
  by (simp add: dict_has_def map_of_eq_None_iff)

lemma keys_dict_set:
  "map fst (dict_set d k v) = (if k \<in> set (map fst d) then map fst d else map fst d @ [k])"
proof (induction d)
  case Nil
  show ?case by simp
next
  case (Cons p d)
  obtain k' v' where p: "p = (k', v')" by (cases p)
  show ?case
  proof (cases "k' = k")
    case True
    then show ?thesis by (simp add: p)
  next
    case False
    then show ?thesis using Cons by (simp add: p)
  qed
qed

lemma map_of_dict_set: "map_of (dict_set d k v) = (map_of d)(k \<mapsto> v)"
  by (induction d) auto

lemma distinct_dict_set:
  "distinct (map fst d) \<Longrightarrow> distinct (map fst (dict_set d k v))"
  by (simp add: keys_dict_set)

lemma set_first_occurrences: "set (first_occurrences xs) = set xs"
proof (induction xs rule: first_occurrences.induct)
  case 1
  show ?case by simp
next
  case (2 x xs)
  then show ?case by auto
qed

lemma distinct_first_occurrences: "distinct (first_occurrences xs)"
proof (induction xs rule: first_occurrences.induct)
  case 1
  show ?case by simp
next
  case (2 x xs)
  then show ?case by (simp add: set_first_occurrences)
qed

lemma first_occurrences_distinct: "distinct xs \<Longrightarrow> first_occurrences xs = xs"
  by (induction xs) (simp_all add: removeAll_id)

lemma add_keys_eq:
  "add_keys ks fs = ks @ first_occurrences (filter (\<lambda>f. f \<notin> set ks) fs)"
proof (induction fs arbitrary: ks)
  case Nil
  show ?case by simp
next
  case (Cons f fs)
  show ?case
  proof (cases "f \<in> set ks")
    case True
    then show ?thesis using Cons[of ks] by simp
  next
    case False
    have "removeAll f (filter (\<lambda>g. g \<notin> set ks) fs) = filter (\<lambda>g. g \<notin> set (ks @ [f])) fs"
      by (induction fs) auto
    then show ?thesis using False Cons[of "ks @ [f]"] by simp
  qed
qed

lemma keys_filter_fields:
  "map fst (filter_fields item fs acc) = add_keys (map fst acc) (filter (dict_has item) fs)"
  by (induction fs arbitrary: acc) (simp_all add: keys_dict_set)

lemma keys_fill_missing: "map fst (fill_missing fs d) = add_keys (map fst d) fs"
  by (induction fs arbitrary: d) (simp_all add: keys_dict_set dict_has_keys)

lemma keys_projection:
  "map fst (fill_missing fs (filter_fields item fs [])) = key_order item fs"
proof -
  have "filter (\<lambda>f. f \<notin> set (filter (dict_has item) fs)) fs = filter (\<lambda>f. \<not> dict_has item f) fs"
    by (rule filter_cong) auto
  then show ?thesis
    by (simp add: keys_fill_missing keys_filter_fields add_keys_eq key_order_def
        set_first_occurrences)
qed

lemma key_order_all_present:
  assumes "distinct fs" "\<forall>f\<in>set fs. dict_has item f"
  shows "key_order item fs = fs"
proof -
  have "filter (dict_has item) fs = fs" using assms(2) by (simp add: filter_id_conv)
  moreover have "filter (\<lambda>f. \<not> dict_has item f) fs = []" using assms(2) by (simp add: filter_empty_conv)
  ultimately show ?thesis using assms(1) by (simp add: key_order_def first_occurrences_distinct)
qed

lemma distinct_filter_fields:
  "distinct (map fst acc) \<Longrightarrow> distinct (map fst (filter_fields item fs acc))"
  by (induction fs arbitrary: acc) (simp_all add: distinct_dict_set)

lemma distinct_fill_missing:
  "distinct (map fst d) \<Longrightarrow> distinct (map fst (fill_missing fs d))"
  by (induction fs arbitrary: d) (simp_all add: distinct_dict_set)

lemma map_of_filter_fields:
  "map_of (filter_fields item fs acc) f =
     (if f \<in> set fs \<and> dict_has item f then Some (dict_get item f) else map_of acc f)"
  by (induction fs arbitrary: acc) (auto simp: map_of_dict_set)

lemma map_of_fill_missing:
  "map_of (fill_missing fs d) f =
     (if f \<in> set fs \<and> map_of d f = None then Some (PStr ''Field not found'') else map_of d f)"
  by (induction fs arbitrary: d) (auto simp: map_of_dict_set dict_has_def)

lemma set_key_order: "set (key_order item fs) = set fs"
  by (auto simp: key_order_def set_first_occurrences)

lemma process_loop_acc:
  "process_loop items fs acc = acc @ process_loop items fs []"
proof (induction items arbitrary: acc)
  case Nil
  show ?case by simp
next
  case (Cons item items)
  show ?case
    using Cons[of "acc @ [fill_missing fs (filter_fields item fs [])]"]
      Cons[of "[fill_missing fs (filter_fields item fs [])]"] Cons[of acc]
    by simp
qed

lemma process_scraped_data_Cons:
  "process_scraped_data (item # items) fs =
     (if truthy (dict_get item ''url'')
      then fill_missing fs (filter_fields item fs []) # process_scraped_data items fs
      else process_scraped_data items fs)"
  using process_loop_acc[of items fs "[fill_missing fs (filter_fields item fs [])]"]
  by (simp add: process_scraped_data_def)

lemma process_scraped_data_Nil: "process_scraped_data [] fs = []"
  by (simp add: process_scraped_data_def)

lemma process_scraped_data_map_filter:
  "process_scraped_data items fs =
     map (\<lambda>item. fill_missing fs (filter_fields item fs []))
       (filter (\<lambda>item. truthy (dict_get item ''url'')) items)"
  by (induction items) (simp_all add: process_scraped_data_Nil process_scraped_data_Cons)

lemma process_scraped_data_append:
  "process_scraped_data (xs @ ys) fs = process_scraped_data xs fs @ process_scraped_data ys fs"
  by (simp add: process_scraped_data_map_filter)

text \<open>
  Claim C4, as stated, fails: a requested field the record lacks is appended after the
  fields it has, so a missing field that is requested first comes out last.
\<close>

theorem field_order_counterexample:
  "map (map fst) (process_scraped_data [[(''url'', PStr ''u'')]] [''title'', ''url''])
     = [[''url'', ''title'']] \<and>
   [''url'', ''title''] \<noteq> [''title'', ''url'']"
  by (simp add: process_scraped_data_def dict_has_def dict_get_def)

text \<open>
  Claim C4, amended. Every output record lists first the requested fields that its source
  record has, in the order of the requested list, and then the requested fields the record
  lacks, again in that order; a field requested twice is listed once. The records are those
  of the input whose url is true, in input order. When the requested list has no repetition
  and every record has every requested field, each output record lists its fields exactly
  in the requested order, whatever the field order of the source record.
\<close>

theorem field_order_amended:
  "map (map fst) (process_scraped_data scraped_data fields')
     = map (\<lambda>item. key_order item fields')
         (filter (\<lambda>item. truthy (dict_get item ''url'')) scraped_data) \<and>
   (distinct fields' \<and> (\<forall>item\<in>set scraped_data. \<forall>f\<in>set fields'. dict_has item f) \<longrightarrow>
      (\<forall>out\<in>set (process_scraped_data scraped_data fields'). map fst out = fields'))"
proof (intro conjI impI)
  show "map (map fst) (process_scraped_data scraped_data fields')
     = map (\<lambda>item. key_order item fields')
         (filter (\<lambda>item. truthy (dict_get item ''url'')) scraped_data)"
    by (simp add: process_scraped_data_map_filter keys_projection comp_def)
next
  assume a: "distinct fields' \<and> (\<forall>item\<in>set scraped_data. \<forall>f\<in>set fields'. dict_has item f)"
  show "\<forall>out\<in>set (process_scraped_data scraped_data fields'). map fst out = fields'"
  proof
    fix out assume "out \<in> set (process_scraped_data scraped_data fields')"
    then obtain item where i: "item \<in> set scraped_data"
      and o: "out = fill_missing fields' (filter_fields item fields' [])"
      by (auto simp: process_scraped_data_map_filter)
    have "key_order item fields' = fields'"
      using a i by (intro key_order_all_present) auto
    then show "map fst out = fields'" by (simp add: o keys_projection)
  qed
qed

theorem field_order_amended_witness:
  "distinct [''title'', ''url''] \<and>
   dict_has [(''url'', PStr ''u''), (''title'', PStr ''t'')] ''title'' \<and>
   dict_has [(''url'', PStr ''u''), (''title'', PStr ''t'')] ''url'' \<and>
   process_scraped_data [[(''url'', PStr ''u''), (''title'', PStr ''t'')]] [''title'', ''url'']
     = [[(''title'', PStr ''t''), (''url'', PStr ''u'')]] \<and>
   map fst [(''title'', PStr ''t''), (''url'', PStr ''u'')] = [''title'', ''url'']"
proof -
  let ?r = "[(''url'', PStr ''u''), (''title'', PStr ''t'')]"
  have d: "distinct [''title'', ''url'']" by simp
  have h: "dict_has ?r ''title''" "dict_has ?r ''url''" by (simp_all add: dict_has_def)
  have e: "process_scraped_data [?r] [''title'', ''url'']
             = [[(''title'', PStr ''t''), (''url'', PStr ''u'')]]"
    by (simp add: process_scraped_data_def dict_has_def dict_get_def)
  have "\<forall>item\<in>set [?r]. \<forall>f\<in>set [''title'', ''url'']. dict_has item f" using h by simp
  with d field_order_amended[of "[?r]" "[''title'', ''url'']"]
  have "\<forall>out\<in>set (process_scraped_data [?r] [''title'', ''url'']). map fst out = [''title'', ''url'']"
    by blast
  then have "map fst [(''title'', PStr ''t''), (''url'', PStr ''u'')] = [''title'', ''url'']"
    unfolding e by simp
  then show ?thesis using d h e by blast
qed

text \<open>
  Claim C5. A record whose url is present and true (for a string: not empty) yields exactly
  one output record; its keys are the requested fields, each once; a requested field has
  the record's value when the record has the field and the string "Field not found"
  otherwise, whatever else the record holds. A record whose url is missing or empty yields
  nothing. The output for a sequence of records is the outputs of its records one after
  the other, so retained records stay in input order.
\<close>

theorem projection_law:
  "(truthy (dict_get R ''url'') \<longrightarrow>
      (\<exists>out. process_scraped_data [R] F = [out] \<and>
             set (map fst out) = set F \<and> distinct (map fst out) \<and>
             (\<forall>f\<in>set F. map_of out f =
                Some (if dict_has R f then dict_get R f else PStr ''Field not found'')))) \<and>
   (\<not> truthy (dict_get R ''url'') \<longrightarrow> process_scraped_data [R] F = []) \<and>
   process_scraped_data rs F = concat (map (\<lambda>r. process_scraped_data [r] F) rs)"
proof (intro conjI impI)
  assume t: "truthy (dict_get R ''url'')"
  let ?out = "fill_missing F (filter_fields R F [])"
  have 1: "process_scraped_data [R] F = [?out]"
    using t by (simp add: process_scraped_data_Cons process_scraped_data_Nil)
  have 2: "set (map fst ?out) = set F"
    by (simp only: keys_projection set_key_order)
  have 3: "distinct (map fst ?out)"
    by (intro distinct_fill_missing distinct_filter_fields) simp
  have 4: "\<forall>f\<in>set F. map_of ?out f =
             Some (if dict_has R f then dict_get R f else PStr ''Field not found'')"
    by (simp add: map_of_fill_missing map_of_filter_fields)
  show "\<exists>out. process_scraped_data [R] F = [out] \<and>
             set (map fst out) = set F \<and> distinct (map fst out) \<and>
             (\<forall>f\<in>set F. map_of out f =
                Some (if dict_has R f then dict_get R f else PStr ''Field not found''))"
    using 1 2 3 4 by blast
next
  assume "\<not> truthy (dict_get R ''url'')"
  then show "process_scraped_data [R] F = []"
    by (simp add: process_scraped_data_Cons process_scraped_data_Nil)
next
  show "process_scraped_data rs F = concat (map (\<lambda>r. process_scraped_data [r] F) rs)"
    by (induction rs)
      (simp_all add: process_scraped_data_Nil process_scraped_data_Cons)
qed

theorem projection_law_witness:
  "truthy (dict_get [(''title'', PStr ''t''), (''url'', PStr ''u'')] ''url'') \<and>
   process_scraped_data [[(''title'', PStr ''t''), (''url'', PStr ''u'')]] [''url'', ''snippet'']
     = [[(''url'', PStr ''u''), (''snippet'', PStr ''Field not found'')]] \<and>
   \<not> truthy (dict_get [(''title'', PStr ''t''), (''url'', PStr '''')] ''url'') \<and>
   process_scraped_data [[(''title'', PStr ''t''), (''url'', PStr '''')]] [''url'', ''snippet''] = [] \<and>
   \<not> truthy (dict_get [(''title'', PStr ''t'')] ''url'') \<and>
   process_scraped_data [[(''title'', PStr ''t'')]] [''url'', ''snippet''] = []"
proof -
  let ?R = "[(''title'', PStr ''t''), (''url'', PStr ''u'')]"
  let ?E = "[(''title'', PStr ''t''), (''url'', PStr '''')]"
  let ?M = "[(''title'', PStr ''t'')]"
  let ?F = "[''url'', ''snippet'']"
  have t: "truthy (dict_get ?R ''url'')" by (simp add: dict_get_def)
  have e: "\<not> truthy (dict_get ?E ''url'')" by (simp add: dict_get_def)
  have m: "\<not> truthy (dict_get ?M ''url'')" by (simp add: dict_get_def)
  from t projection_law[of ?R ?F] obtain out where
    o: "process_scraped_data [?R] ?F = [out]" by blast
  have "process_scraped_data [?R] ?F = [[(''url'', PStr ''u''), (''snippet'', PStr ''Field not found'')]]"
    by (simp add: process_scraped_data_def dict_has_def dict_get_def)
  moreover from e projection_law[of ?E ?F] have "process_scraped_data [?E] ?F = []" by blast
  moreover from m projection_law[of ?M ?F] have "process_scraped_data [?M] ?F = []" by blast
  ultimately show ?thesis using t e m o by blast
qed

section \<open>fetch_search_results\<close>

subsection \<open>The loop over the result containers\<close>

lemma extract_results_acc:
  "extract_results css sel cs acc = acc @ List.map_filter (container_result css sel) cs"
proof (induction cs arbitrary: acc)
  case Nil
  show ?case by (simp add: map_filter_simps)
next
  case (Cons c cs)
  show ?case
  proof (cases "container_result css sel c")
    case None
    then show ?thesis using Cons[of acc] by (simp add: map_filter_simps)
  next
    case (Some r)
    then show ?thesis using Cons[of "acc @ [r]"] by (simp add: map_filter_simps)
  qed
qed

lemma clean_text_no_title: "clean_text (PStr ''No title found'') = ''No title found''"
  by code_simp

lemma container_result_iff:
  "container_result css sel c \<noteq> None \<longleftrightarrow>
     (\<exists>l h. select_one css (link sel) c = Some l \<and> attr_get l ''href'' = Some h \<and> h \<noteq> []) \<and>
     (case select_one css (title sel) c of None \<Rightarrow> True | Some t \<Rightarrow> text_of t \<noteq> [])"
  by (auto simp: container_result_def Let_def split: option.splits)

lemma container_result_untitled:
  assumes "select_one css (title sel) c = None" "select_one css (link sel) c = Some l"
    "attr_get l ''href'' = Some h" "h \<noteq> []"
  shows "\<exists>sn. container_result css sel c =
           Some [(''url'', PStr h), (''title'', PStr ''No title found''), (''snippet'', PStr sn)]"
  using assms by (simp add: container_result_def Let_def clean_text_no_title del: clean_text.simps)

text \<open>
  Claim C3, as stated, fails: a container that has a link with a non-empty href and no
  title element is kept, under the title "No title found".
\<close>

theorem untitled_container_counterexample:
  "select_one simple_css (title (engine_selectors ''google'')) untitled_container = None \<and>
   snd (fetch_search_results simple_css ''q'' ''google'' 10 3
          (always (Response 200 untitled_results_page)))
     = Inr [[(''url'', PStr ''/x''), (''title'', PStr ''No title found''),
             (''snippet'', PStr ''No snippet found'')]]"
  by code_simp

text \<open>
  Claim C3, amended. The loop appends at most one entry per selected container, in the
  order of the containers. A container gets an entry exactly when it has a link element
  with a non-empty href and its title text is not empty, where the title text is the text
  of the title element when there is one and "No title found" when there is none. So a
  container without a title element that has a link with a non-empty href contributes an
  entry titled "No title found"; a container is passed over, without an error, when it has
  no link element, no href or an empty one, or a title element whose text is empty.
\<close>

theorem container_kept_amended:
  "extract_results css sel containers [] = List.map_filter (container_result css sel) containers \<and>
   (container_result css sel c \<noteq> None \<longleftrightarrow>
      (\<exists>l h. select_one css (link sel) c = Some l \<and> attr_get l ''href'' = Some h \<and> h \<noteq> []) \<and>
      (case select_one css (title sel) c of None \<Rightarrow> True | Some t \<Rightarrow> text_of t \<noteq> [])) \<and>
   (select_one css (title sel) c = None \<and> select_one css (link sel) c = Some l \<and>
    attr_get l ''href'' = Some h \<and> h \<noteq> [] \<longrightarrow>
      (\<exists>sn. container_result css sel c =
         Some [(''url'', PStr h), (''title'', PStr ''No title found''), (''snippet'', PStr sn)]))"
  using extract_results_acc[of css sel containers "[]"] container_result_iff[of css sel c]
    container_result_untitled[of css sel c l h]
  by simp

theorem container_kept_amended_witness:
  "select_one simple_css (title (engine_selectors ''google'')) untitled_container = None \<and>
   select_one simple_css (link (engine_selectors ''google'')) untitled_container
     = Some (Element ''a'' [(''href'', ''/x'')] [Text ''Foo'']) \<and>
   attr_get (Element ''a'' [(''href'', ''/x'')] [Text ''Foo'']) ''href'' = Some ''/x'' \<and>
   ''/x'' \<noteq> [] \<and>
   (\<exists>sn. container_result simple_css (engine_selectors ''google'') untitled_container =
      Some [(''url'', PStr ''/x''), (''title'', PStr ''No title found''), (''snippet'', PStr sn)])"
proof -
  let ?sel = "engine_selectors ''google''"
  let ?a = "Element ''a'' [(''href'', ''/x'')] [Text ''Foo'']"
  have 1: "select_one simple_css (title ?sel) untitled_container = None" by code_simp
  have 2: "select_one simple_css (link ?sel) untitled_container = Some ?a" by code_simp
  have 3: "attr_get ?a ''href'' = Some ''/x''" by (simp add: attr_get_def)
  have 4: "''/x'' \<noteq> []" by simp
  from container_kept_amended[of simple_css ?sel "[untitled_container]" untitled_container ?a "''/x''"]
    1 2 3 4
  have "\<exists>sn. container_result simple_css ?sel untitled_container =
      Some [(''url'', PStr ''/x''), (''title'', PStr ''No title found''), (''snippet'', PStr sn)]"
    by blast
  then show ?thesis using 1 2 3 4 by blast
qed

subsection \<open>The retry loop\<close>

lemma range_py_split:
  assumes "k < nat retries"
  shows "range_py retries = [0..<k] @ k # [Suc k..<nat retries]"
proof -
  have "[0..<nat retries] = [0..<k] @ [k..<nat retries]"
    using assms upt_add_eq_append[of 0 k "nat retries - k"] by simp
  then show ?thesis using assms by (simp add: range_py_def upt_conv_Cons)
qed

lemma io_events_append: "io_events (xs @ ys) = io_events xs @ io_events ys"
  by (simp add: io_events_def)

lemma search_attempt_transient:
  assumes "transient outcome"
  shows "\<exists>m. search_attempt css e sel j outcome = ([Print m, Sleep (2 ^ j)], NextAttempt)"
proof (cases outcome)
  case (Response status soup)
  then have "status = 500 \<or> status = 503" using assms by (simp add: transient_def)
  then show ?thesis
    using Response by (auto simp: search_attempt_def raise_for_status_def)
qed (use assms in \<open>simp_all add: transient_def search_attempt_def\<close>)

lemma search_attempt_terminal:
  assumes "terminal outcome"
  shows "search_attempt css e sel j outcome = ([Print FetchErrorOccurred], Returns []) \<or>
         (\<exists>s. search_attempt css e sel j outcome = ([Print (HttpErrorOccurred s)], Returns []))"
proof (cases outcome)
  case (Response status soup)
  then show ?thesis using assms by (simp add: terminal_def search_attempt_def)
qed (use assms in \<open>simp_all add: terminal_def search_attempt_def\<close>)

lemma search_attempt_no_results:
  assumes "\<not> raise_for_status status" "css (result_link_container sel) soup = []"
  shows "search_attempt css e sel j (Response status soup) = ([Print (NoMainResults e)], Returns [])"
  using assms by (simp add: search_attempt_def)

lemma search_loop_transient:
  assumes "\<forall>j\<in>set js. transient (net j)"
  shows "\<exists>evs. search_loop css e sel u t r net (js @ rest)
             = (evs @ fst (search_loop css e sel u t r net rest),
                snd (search_loop css e sel u t r net rest)) \<and>
           io_events evs = concat (map (\<lambda>j. [Get u t, Sleep (2 ^ j)]) js)"
  using assms
proof (induction js)
  case Nil
  show ?case by (intro exI[of _ "[]"]) (simp add: io_events_def)
next
  case (Cons j js)
  then obtain evs where
    l: "search_loop css e sel u t r net (js @ rest)
          = (evs @ fst (search_loop css e sel u t r net rest),
             snd (search_loop css e sel u t r net rest))"
    and io: "io_events evs = concat (map (\<lambda>j. [Get u t, Sleep (2 ^ j)]) js)"
    by auto
  from Cons.prems obtain m where
    a: "search_attempt css e sel j (net j) = ([Print m, Sleep (2 ^ j)], NextAttempt)"
    using search_attempt_transient[of "net j" css e sel j] by auto
  let ?evs = "[Get u t, Print m, Sleep (2 ^ j)] @ evs"
  have "search_loop css e sel u t r net ((j # js) @ rest)
          = (?evs @ fst (search_loop css e sel u t r net rest),
             snd (search_loop css e sel u t r net rest))"
    by (simp add: a l)
  moreover have "io_events ?evs = concat (map (\<lambda>j. [Get u t, Sleep (2 ^ j)]) (j # js))"
    using io by (simp add: io_events_def)
  ultimately show ?case by blast
qed

lemma search_ends_at:
  assumes "k < nat r" "\<forall>j<k. transient (net j)"
    and "search_attempt css e sel k (net k) = ([Print m], Returns [])"
  shows "snd (search_loop css e sel u t r net (range_py r)) = Inr [] \<and>
         last (fst (search_loop css e sel u t r net (range_py r))) = Print m \<and>
         io_events (fst (search_loop css e sel u t r net (range_py r)))
           = concat (map (\<lambda>j. [Get u t, Sleep (2 ^ j)]) [0..<k]) @ [Get u t]"
proof -
  let ?rest = "k # [Suc k..<nat r]"
  have tr: "\<forall>j\<in>set [0..<k]. transient (net j)" using assms(2) by simp
  from search_loop_transient[OF tr, of css e sel u t r ?rest] obtain evs where
    l: "search_loop css e sel u t r net ([0..<k] @ ?rest)
          = (evs @ fst (search_loop css e sel u t r net ?rest),
             snd (search_loop css e sel u t r net ?rest))"
    and io: "io_events evs = concat (map (\<lambda>j. [Get u t, Sleep (2 ^ j)]) [0..<k])"
    by blast
  have e: "search_loop css e sel u t r net ?rest = ([Get u t, Print m], Inr [])"
    by (simp add: assms(3))
  have s: "search_loop css e sel u t r net (range_py r) = (evs @ [Get u t, Print m], Inr [])"
    using l e by (simp add: range_py_split[OF assms(1)])
  show ?thesis using io by (simp add: s io_events_append) (simp add: io_events_def)
qed

lemma search_exhausted:
  assumes "\<forall>j<nat r. transient (net j)"
  shows "snd (search_loop css e sel u t r net (range_py r)) = Inr [] \<and>
         last (fst (search_loop css e sel u t r net (range_py r))) = Print (FailedToFetch r) \<and>
         io_events (fst (search_loop css e sel u t r net (range_py r)))
           = concat (map (\<lambda>j. [Get u t, Sleep (2 ^ j)]) [0..<nat r])"
proof -
  have tr: "\<forall>j\<in>set [0..<nat r]. transient (net j)" using assms by simp
  from search_loop_transient[OF tr, of css e sel u t r "[]"] obtain evs where
    l: "search_loop css e sel u t r net (range_py r) = (evs @ [Print (FailedToFetch r)], Inr [])"
    and io: "io_events evs = concat (map (\<lambda>j. [Get u t, Sleep (2 ^ j)]) [0..<nat r])"
    by (auto simp: range_py_def)
  show ?thesis using io by (simp add: l io_events_append) (simp add: io_events_def)
qed

lemma google_is_supported: "map_of SEARCH_ENGINES ''google'' \<noteq> None"
  by (simp add: SEARCH_ENGINES_def)

lemma fetch_search_results_eq:
  "fetch_search_results css query e t r net =
     ((if map_of SEARCH_ENGINES e = None then [Print (UnsupportedEngine e)] else [])
        @ fst (search_loop css (effective_engine e) (engine_selectors e) (engine_url e @ query)
                 t r net (range_py r)),
      snd (search_loop css (effective_engine e) (engine_selectors e) (engine_url e @ query)
             t r net (range_py r)))"
proof (cases "map_of SEARCH_ENGINES e")
  case None
  obtain cfg where g: "map_of SEARCH_ENGINES ''google'' = Some cfg"
    using google_is_supported by blast
  show ?thesis
    using None g
    by (simp add: fetch_search_results_def effective_engine_def engine_selectors_def
        engine_url_def split: prod.splits)
next
  case (Some cfg)
  then show ?thesis
    by (simp add: fetch_search_results_def effective_engine_def engine_selectors_def
        engine_url_def split: prod.splits)
qed

lemma search_loop_nonempty: "fst (search_loop css e sel u t r net js) \<noteq> []"
  by (cases js) (auto split: prod.splits flow.splits)

lemma fetch_search_results_last:
  "last (fst (fetch_search_results css query e t r net))
     = last (fst (search_loop css (effective_engine e) (engine_selectors e)
                    (engine_url e @ query) t r net (range_py r)))"
  by (simp add: fetch_search_results_eq search_loop_nonempty)

lemma fetch_search_results_io:
  "io_events (fst (fetch_search_results css query e t r net))
     = io_events (fst (search_loop css (effective_engine e) (engine_selectors e)
                         (engine_url e @ query) t r net (range_py r)))"
  by (simp add: fetch_search_results_eq io_events_append) (simp add: io_events_def)

lemma fetch_search_results_snd:
  "snd (fetch_search_results css query e t r net)
     = snd (search_loop css (effective_engine e) (engine_selectors e)
              (engine_url e @ query) t r net (range_py r))"
  by (simp add: fetch_search_results_eq)

text \<open>
  The retry behaviour of the search fetch: with transient failures only it makes exactly
  \<open>retries\<close> requests, each followed by a sleep of \<open>2 ^ attempt\<close> seconds (the last one
  too), and returns the empty list; a terminal failure ends the call on its attempt, with
  no sleep after its request.
\<close>

lemma search_only_transient:
  assumes "\<forall>j<nat r. transient (net j)"
  shows "snd (fetch_search_results css query e t r net) = Inr [] \<and>
         io_events (fst (fetch_search_results css query e t r net))
           = concat (map (\<lambda>j. [Get (engine_url e @ query) t, Sleep (2 ^ j)]) [0..<nat r])"
  using search_exhausted[OF assms]
  by (simp only: fetch_search_results_snd fetch_search_results_io)

lemma search_terminal_immediate:
  assumes "k < nat r" "\<forall>j<k. transient (net j)" "terminal (net k)"
  shows "snd (fetch_search_results css query e t r net) = Inr [] \<and>
         io_events (fst (fetch_search_results css query e t r net))
           = concat (map (\<lambda>j. [Get (engine_url e @ query) t, Sleep (2 ^ j)]) [0..<k])
               @ [Get (engine_url e @ query) t]"
proof -
  from search_attempt_terminal[OF assms(3), of css "effective_engine e" "engine_selectors e" k]
  obtain m where
    "search_attempt css (effective_engine e) (engine_selectors e) k (net k)
       = ([Print m], Returns [])"
    by blast
  from search_ends_at[OF assms(1,2) this] show ?thesis
    by (simp only: fetch_search_results_snd fetch_search_results_io)
qed

subsection \<open>What the caller of fetch_search_results can see\<close>

text \<open>
  Claim C6, as stated, fails: a search page on which the container selector matches nothing,
  a terminal HTTP error and an exhausted retry budget all make \<^verbatim>\<open>fetch_search_results\<close>
  return the same value, the empty list.
\<close>

theorem empty_and_failed_search_counterexample:
  "snd (fetch_search_results simple_css ''q'' ''google'' 10 3 (always (Response 200 empty_page)))
     = Inr [] \<and>
   snd (fetch_search_results simple_css ''q'' ''google'' 10 3 (always (Response 404 empty_page)))
     = Inr [] \<and>
   snd (fetch_search_results simple_css ''q'' ''google'' 10 3 (always Timeout)) = Inr []"
proof -
  have "snd (fetch_search_results simple_css ''q'' ''google'' 10 3
               (always (Response 200 empty_page))) = Inr []"
    by code_simp
  moreover have "snd (fetch_search_results simple_css ''q'' ''google'' 10 3
               (always (Response 404 empty_page))) = Inr []"
    by code_simp
  moreover have "snd (fetch_search_results simple_css ''q'' ''google'' 10 3 (always Timeout))
               = Inr []"
    by code_simp
  ultimately show ?thesis by blast
qed

text \<open>
  Claim C6, amended. A search fetch that succeeds with no container matched returns the
  empty list, and so does a fetch that fails, on a terminal error or with its retries
  exhausted: the return value does not tell the cases apart. They differ in the message
  printed last only: "No main search results found" for the empty page, the error message
  for a terminal failure, "Failed to fetch search results" after the last retry.
\<close>

theorem empty_and_failed_search_amended:
  "(k < nat retries \<and> (\<forall>j<k. transient (net j)) \<and> net k = Response status soup \<and>
    \<not> raise_for_status status \<and>
    css (result_link_container (engine_selectors search_engine)) soup = [] \<longrightarrow>
      snd (fetch_search_results css query search_engine timeout_seconds retries net) = Inr [] \<and>
      last (fst (fetch_search_results css query search_engine timeout_seconds retries net))
        = Print (NoMainResults (effective_engine search_engine))) \<and>
   (k < nat retries \<and> (\<forall>j<k. transient (net j)) \<and> terminal (net k) \<longrightarrow>
      snd (fetch_search_results css query search_engine timeout_seconds retries net) = Inr [] \<and>
      (last (fst (fetch_search_results css query search_engine timeout_seconds retries net))
         = Print FetchErrorOccurred \<or>
       (\<exists>s. last (fst (fetch_search_results css query search_engine timeout_seconds retries net))
         = Print (HttpErrorOccurred s)))) \<and>
   ((\<forall>j<nat retries. transient (net j)) \<longrightarrow>
      snd (fetch_search_results css query search_engine timeout_seconds retries net) = Inr [] \<and>
      last (fst (fetch_search_results css query search_engine timeout_seconds retries net))
        = Print (FailedToFetch retries))"
proof (intro conjI impI)
  let ?e = "effective_engine search_engine" and ?sel = "engine_selectors search_engine"
  assume a: "k < nat retries \<and> (\<forall>j<k. transient (net j)) \<and> net k = Response status soup \<and>
    \<not> raise_for_status status \<and> css (result_link_container ?sel) soup = []"
  then have k: "k < nat retries" and tr: "\<forall>j<k. transient (net j)" by blast+
  from a have "search_attempt css ?e ?sel k (net k) = ([Print (NoMainResults ?e)], Returns [])"
    using search_attempt_no_results[of status css ?sel soup ?e k] by simp
  from search_ends_at[OF k tr this]
  show "snd (fetch_search_results css query search_engine timeout_seconds retries net) = Inr []"
    "last (fst (fetch_search_results css query search_engine timeout_seconds retries net))
       = Print (NoMainResults ?e)"
    by (simp_all only: fetch_search_results_snd fetch_search_results_last)
next
  let ?e = "effective_engine search_engine" and ?sel = "engine_selectors search_engine"
  assume a: "k < nat retries \<and> (\<forall>j<k. transient (net j)) \<and> terminal (net k)"
  then have t: "terminal (net k)" and k: "k < nat retries" and tr: "\<forall>j<k. transient (net j)"
    by blast+
  from search_attempt_terminal[OF t, of css ?e ?sel k] obtain m where
    m: "search_attempt css ?e ?sel k (net k) = ([Print m], Returns [])"
    and ms: "m = FetchErrorOccurred \<or> (\<exists>s. m = HttpErrorOccurred s)"
    by blast
  from search_ends_at[OF k tr m]
  have s: "snd (fetch_search_results css query search_engine timeout_seconds retries net) = Inr []"
    and l: "last (fst (fetch_search_results css query search_engine timeout_seconds retries net))
              = Print m"
    by (simp_all only: fetch_search_results_snd fetch_search_results_last)
  show "snd (fetch_search_results css query search_engine timeout_seconds retries net) = Inr []"
    by (rule s)
  show "last (fst (fetch_search_results css query search_engine timeout_seconds retries net))
          = Print FetchErrorOccurred \<or>
        (\<exists>s. last (fst (fetch_search_results css query search_engine timeout_seconds retries net))
          = Print (HttpErrorOccurred s))"
    using ms unfolding l by blast
next
  assume a: "\<forall>j<nat retries. transient (net j)"
  from search_exhausted[OF a]
  show "snd (fetch_search_results css query search_engine timeout_seconds retries net) = Inr []"
    "last (fst (fetch_search_results css query search_engine timeout_seconds retries net))
       = Print (FailedToFetch retries)"
    by (simp_all only: fetch_search_results_snd fetch_search_results_last)
qed

theorem empty_and_failed_search_amended_witness:
  "(0::nat) < nat 3 \<and> always (Response 200 empty_page) 0 = Response 200 empty_page \<and>
   \<not> raise_for_status 200 \<and>
   simple_css (result_link_container (engine_selectors ''google'')) empty_page = [] \<and>
   snd (fetch_search_results simple_css ''q'' ''google'' 10 3 (always (Response 200 empty_page)))
     = Inr [] \<and>
   last (fst (fetch_search_results simple_css ''q'' ''google'' 10 3
                (always (Response 200 empty_page))))
     = Print (NoMainResults ''google'') \<and>
   terminal (always (Response 404 empty_page) 0) \<and>
   snd (fetch_search_results simple_css ''q'' ''google'' 10 3 (always (Response 404 empty_page)))
     = Inr [] \<and>
   last (fst (fetch_search_results simple_css ''q'' ''google'' 10 3
                (always (Response 404 empty_page))))
     = Print (HttpErrorOccurred 404) \<and>
   transient (always Timeout 0) \<and> transient (always Timeout 1) \<and> transient (always Timeout 2) \<and>
   snd (fetch_search_results simple_css ''q'' ''google'' 10 3 (always Timeout)) = Inr [] \<and>
   last (fst (fetch_search_results simple_css ''q'' ''google'' 10 3 (always Timeout)))
     = Print (FailedToFetch 3)"
proof -
  let ?ok = "always (Response 200 empty_page)"
  let ?nf = "always (Response 404 empty_page)"
  let ?to = "always Timeout"
  have k: "(0::nat) < nat 3" by simp
  have v: "\<forall>j<(0::nat). transient (net j)" for net by simp
  have e: "effective_engine ''google'' = ''google''"
    by (simp add: effective_engine_def SEARCH_ENGINES_def)
  have o1: "?ok 0 = Response 200 empty_page" by (simp add: always_def)
  have o2: "\<not> raise_for_status 200" by (simp add: raise_for_status_def)
  have o3: "simple_css (result_link_container (engine_selectors ''google'')) empty_page = []"
    by code_simp
  have n1: "terminal (?nf 0)" by (simp add: always_def terminal_def raise_for_status_def)
  have t0: "transient (?to j)" for j by (simp add: always_def transient_def)
  then have t1: "\<forall>j<nat 3. transient (?to j)" by simp
  from empty_and_failed_search_amended[of 0 3 ?ok 200 empty_page simple_css "''google''" "''q'' " 10]
    k v[of ?ok] o1 o2 o3
  have r1: "snd (fetch_search_results simple_css ''q'' ''google'' 10 3 ?ok) = Inr []"
    "last (fst (fetch_search_results simple_css ''q'' ''google'' 10 3 ?ok))
       = Print (NoMainResults ''google'')"
    unfolding e by blast+
  from empty_and_failed_search_amended[of 0 3 ?nf _ _ simple_css "''google''" "''q''" 10]
    k v[of ?nf] n1
  have r2: "snd (fetch_search_results simple_css ''q'' ''google'' 10 3 ?nf) = Inr []"
    by blast
  have r2': "last (fst (fetch_search_results simple_css ''q'' ''google'' 10 3 ?nf))
       = Print (HttpErrorOccurred 404)"
    by code_simp
  from empty_and_failed_search_amended[of _ 3 ?to _ _ simple_css "''google''" "''q''" 10] t1
  have r3: "snd (fetch_search_results simple_css ''q'' ''google'' 10 3 ?to) = Inr []"
    "last (fst (fetch_search_results simple_css ''q'' ''google'' 10 3 ?to))
       = Print (FailedToFetch 3)"
    by blast+
  show ?thesis using k o1 o2 o3 r1 n1 r2 r2' t0[of 0] t0[of 1] t0[of 2] r3 by blast
qed

subsection \<open>The sleep after the last attempt, and the page fetch without classification\<close>

text \<open>
  Claim C1 at a concrete input. With two attempts that both meet a transient failure (a
  status 503 for the search fetch, a timeout for the page fetch) the run requests twice and
  sleeps twice: one second between the attempts, and two seconds after the last attempt,
  when no attempt follows. The claim allows no delay but between consecutive attempts.
\<close>

theorem backoff_after_last_attempt:
  "fetch_search_results simple_css ''q'' ''google'' 10 2 (always (Response 503 empty_page))
     = ([Get ''https://www.google.com/search?q=q'' 10, Print (ServerErrorRetrying 503 1), Sleep 1,
         Get ''https://www.google.com/search?q=q'' 10, Print (ServerErrorRetrying 503 2), Sleep 2,
         Print (FailedToFetch 2)], Inr []) \<and>
   scrape_page ''http://a.example/'' False 10 2 (always Timeout)
     = ([Get ''http://a.example/'' 10, Sleep 1, Get ''http://a.example/'' 10, Sleep 2], None)"
proof -
  have "fetch_search_results simple_css ''q'' ''google'' 10 2 (always (Response 503 empty_page))
     = ([Get ''https://www.google.com/search?q=q'' 10, Print (ServerErrorRetrying 503 1), Sleep 1,
         Get ''https://www.google.com/search?q=q'' 10, Print (ServerErrorRetrying 503 2), Sleep 2,
         Print (FailedToFetch 2)], Inr [])"
    by code_simp
  moreover have "scrape_page ''http://a.example/'' False 10 2 (always Timeout)
     = ([Get ''http://a.example/'' 10, Sleep 1, Get ''http://a.example/'' 10, Sleep 2], None)"
    by code_simp
  ultimately show ?thesis by blast
qed

text \<open>
  Claim C2 at a concrete input. A status 404 and a refused connection are terminal
  failures. \<^verbatim>\<open>fetch_search_results\<close> ends on the first attempt without a sleep;
  \<^verbatim>\<open>scrape_page\<close> sleeps and tries again until its three attempts are used up.
\<close>

theorem scrape_page_retries_terminal_failure:
  "fetch_search_results simple_css ''q'' ''google'' 10 3 (always (Response 404 empty_page))
     = ([Get ''https://www.google.com/search?q=q'' 10, Print (HttpErrorOccurred 404)], Inr []) \<and>
   scrape_page ''http://a.example/'' False 10 3 (always (Response 404 empty_page))
     = ([Get ''http://a.example/'' 10, Sleep 1, Get ''http://a.example/'' 10, Sleep 2,
         Get ''http://a.example/'' 10, Sleep 4], None) \<and>
   scrape_page ''http://a.example/'' False 10 3 (always RequestError)
     = ([Get ''http://a.example/'' 10, Sleep 1, Get ''http://a.example/'' 10, Sleep 2,
         Get ''http://a.example/'' 10, Sleep 4], None)"
proof -
  have "fetch_search_results simple_css ''q'' ''google'' 10 3 (always (Response 404 empty_page))
     = ([Get ''https://www.google.com/search?q=q'' 10, Print (HttpErrorOccurred 404)], Inr [])"
    by code_simp
  moreover have "scrape_page ''http://a.example/'' False 10 3 (always (Response 404 empty_page))
     = ([Get ''http://a.example/'' 10, Sleep 1, Get ''http://a.example/'' 10, Sleep 2,
         Get ''http://a.example/'' 10, Sleep 4], None)"
    by code_simp
  moreover have "scrape_page ''http://a.example/'' False 10 3 (always RequestError)
     = ([Get ''http://a.example/'' 10, Sleep 1, Get ''http://a.example/'' 10, Sleep 2,
         Get ''http://a.example/'' 10, Sleep 4], None)"
    by code_simp
  ultimately show ?thesis by blast
qed

section \<open>scrape_page\<close>

subsection \<open>The skip list\<close>

lemma skip_domain_Some:
  "domain \<in> set domains \<Longrightarrow> py_in domain page_url \<Longrightarrow> \<exists>d. skip_domain domains page_url = Some d"
  by (induction domains) auto

lemma collect_results_None:
  "collect_results (earlier @ None # later) acc = collect_results (earlier @ later) acc"
  by (induction earlier arbitrary: acc) (simp_all split: option.splits)

text \<open>
  Claim C7. For a URL in which an entry of the skip list occurs (as it does in every URL
  whose domain is on the list), \<^verbatim>\<open>scrape_page\<close> returns \<^verbatim>\<open>None\<close> and performs no request
  and no sleep (at most it prints the skip notice); and a \<^verbatim>\<open>None\<close> result adds no entry to
  the collected pages, wherever it stands in the completion order.
\<close>

theorem skipped_domain_never_fetched:
  assumes "domain \<in> set DOMAINS_TO_SKIP" and "page_url = before @ domain @ after"
  shows "snd (scrape_page page_url verbose timeout_seconds retries net) = None \<and>
         io_events (fst (scrape_page page_url verbose timeout_seconds retries net)) = [] \<and>
         collect_results
             (earlier @ snd (scrape_page page_url verbose timeout_seconds retries net) # later)
             scraped_data
           = collect_results (earlier @ later) scraped_data"
proof -
  have "py_in domain page_url" by (simp add: py_in_def assms(2))
  from skip_domain_Some[OF assms(1) this] obtain d where
    "skip_domain DOMAINS_TO_SKIP page_url = Some d" by blast
  then have s: "scrape_page page_url verbose timeout_seconds retries net
                  = ((if verbose then [Print (Skipping d page_url)] else []), None)"
    by (simp add: scrape_page_def)
  show ?thesis by (simp add: s io_events_def collect_results_None)
qed

theorem skipped_domain_never_fetched_witness:
  "''twitter.com'' \<in> set DOMAINS_TO_SKIP \<and>
   ''https://twitter.com/x'' = ''https://'' @ ''twitter.com'' @ ''/x'' \<and>
   snd (scrape_page ''https://twitter.com/x'' True 10 3 (always (Response 200 hello_page))) = None \<and>
   io_events (fst (scrape_page ''https://twitter.com/x'' True 10 3
                     (always (Response 200 hello_page)))) = [] \<and>
   collect_results
       ([Some [(''url'', PStr ''u'')]]
          @ snd (scrape_page ''https://twitter.com/x'' True 10 3 (always (Response 200 hello_page)))
          # []) []
     = collect_results ([Some [(''url'', PStr ''u'')]] @ []) []"
proof -
  have d: "''twitter.com'' \<in> set DOMAINS_TO_SKIP" by (simp add: DOMAINS_TO_SKIP_def)
  have u: "''https://twitter.com/x'' = ''https://'' @ ''twitter.com'' @ ''/x''" by simp
  from skipped_domain_never_fetched[OF d u, of True 10 3 "always (Response 200 hello_page)"
      "[Some [(''url'', PStr ''u'')]]" "[]" "[]"]
  show ?thesis using d u by blast
qed

subsection \<open>The retry loop\<close>

lemma scrape_attempt_request_exception:
  "request_exception outcome \<Longrightarrow>
     scrape_attempt page_url verbose j outcome = request_failed page_url verbose j"
  by (cases outcome) (simp_all add: request_exception_def scrape_attempt_def)

lemma scrape_attempt_other_exception:
  "other_exception outcome \<Longrightarrow>
     scrape_attempt page_url verbose j outcome
       = ((if verbose then [Print (UnexpectedError page_url)] else []), Returns None)"
  by (cases outcome) (simp_all add: other_exception_def scrape_attempt_def)

lemma scrape_loop_failed:
  assumes "\<forall>j\<in>set js. request_exception (net j)"
  shows "\<exists>evs. scrape_loop u v t r net (js @ rest)
             = (evs @ fst (scrape_loop u v t r net rest), snd (scrape_loop u v t r net rest)) \<and>
           io_events evs = concat (map (\<lambda>j. [Get u t, Sleep (2 ^ j)]) js)"
  using assms
proof (induction js)
  case Nil
  show ?case by (intro exI[of _ "[]"]) (simp add: io_events_def)
next
  case (Cons j js)
  then obtain evs where
    l: "scrape_loop u v t r net (js @ rest)
          = (evs @ fst (scrape_loop u v t r net rest), snd (scrape_loop u v t r net rest))"
    and io: "io_events evs = concat (map (\<lambda>j. [Get u t, Sleep (2 ^ j)]) js)"
    by auto
  have a: "scrape_attempt u v j (net j) = request_failed u v j"
    using Cons.prems by (simp add: scrape_attempt_request_exception)
  let ?evs = "(if v then [Print (ScrapingPage u (j + 1))] else []) @ [Get u t]
                @ fst (request_failed u v j) @ evs"
  have "scrape_loop u v t r net ((j # js) @ rest)
          = (?evs @ fst (scrape_loop u v t r net rest), snd (scrape_loop u v t r net rest))"
    by (simp add: a l Let_def) (simp add: request_failed_def)
  moreover have "io_events ?evs = concat (map (\<lambda>j. [Get u t, Sleep (2 ^ j)]) (j # js))"
    using io by (simp add: io_events_def request_failed_def)
  ultimately show ?case by blast
qed

text \<open>
  The retry behaviour of the page fetch: when every attempt ends in a request exception,
  \<^verbatim>\<open>scrape_page\<close> makes exactly \<open>retries\<close> requests, each followed by a sleep of
  \<open>2 ^ attempt\<close> seconds (the last one too), and returns \<^verbatim>\<open>None\<close>.
\<close>

lemma scrape_only_request_exceptions:
  assumes "skip_domain DOMAINS_TO_SKIP page_url = None"
    and "\<forall>j<nat retries. request_exception (net j)"
  shows "snd (scrape_page page_url verbose t retries net) = None \<and>
         io_events (fst (scrape_page page_url verbose t retries net))
           = concat (map (\<lambda>j. [Get page_url t, Sleep (2 ^ j)]) [0..<nat retries])"
proof -
  have tr: "\<forall>j\<in>set [0..<nat retries]. request_exception (net j)" using assms(2) by simp
  from scrape_loop_failed[OF tr, of page_url verbose t retries "[]"] obtain evs where
    l: "scrape_loop page_url verbose t retries net (range_py retries)
          = (evs @ (if verbose then [Print (FailedToScrape page_url retries)] else []), None)"
    and io: "io_events evs = concat (map (\<lambda>j. [Get page_url t, Sleep (2 ^ j)]) [0..<nat retries])"
    by (auto simp: range_py_def)
  show ?thesis
    using io by (simp add: scrape_page_def assms(1) l io_events_append) (simp add: io_events_def)
qed

text \<open>
  Claim C10. Let the URL pass the skip list and let attempt \<open>k\<close> be reached, every earlier
  attempt having ended in a request exception. If attempt \<open>k\<close> raises an exception that is
  not a request exception (here: one raised outside the \<^verbatim>\<open>requests\<close> hierarchy, or the
  \<^verbatim>\<open>KeyError\<close> of a description meta tag without a content attribute), \<^verbatim>\<open>scrape_page\<close>
  returns \<^verbatim>\<open>None\<close>, and its requests and sleeps are those of the \<open>k\<close> failed attempts followed
  by the request of attempt \<open>k\<close> alone: no sleep follows it and no further attempt is made.
\<close>

theorem unexpected_exception_ends_scrape:
  assumes "skip_domain DOMAINS_TO_SKIP page_url = None"
    and "k < nat retries"
    and "\<forall>j<k. request_exception (net j)"
    and "other_exception (net k)"
  shows "snd (scrape_page page_url verbose timeout_seconds retries net) = None \<and>
         io_events (fst (scrape_page page_url verbose timeout_seconds retries net))
           = concat (map (\<lambda>j. [Get page_url timeout_seconds, Sleep (2 ^ j)]) [0..<k])
               @ [Get page_url timeout_seconds]"
proof -
  let ?rest = "k # [Suc k..<nat retries]"
  have tr: "\<forall>j\<in>set [0..<k]. request_exception (net j)" using assms(3) by simp
  from scrape_loop_failed[OF tr, of page_url verbose timeout_seconds retries ?rest]
  obtain evs where
    l: "scrape_loop page_url verbose timeout_seconds retries net ([0..<k] @ ?rest)
          = (evs @ fst (scrape_loop page_url verbose timeout_seconds retries net ?rest),
             snd (scrape_loop page_url verbose timeout_seconds retries net ?rest))"
    and io: "io_events evs
               = concat (map (\<lambda>j. [Get page_url timeout_seconds, Sleep (2 ^ j)]) [0..<k])"
    by blast
  have e: "scrape_loop page_url verbose timeout_seconds retries net ?rest
             = ((if verbose then [Print (ScrapingPage page_url (k + 1))] else [])
                  @ [Get page_url timeout_seconds]
                  @ (if verbose then [Print (UnexpectedError page_url)] else []), None)"
    by (simp add: scrape_attempt_other_exception[OF assms(4)] Let_def)
  have s: "scrape_page page_url verbose timeout_seconds retries net
             = (evs @ (if verbose then [Print (ScrapingPage page_url (k + 1))] else [])
                  @ [Get page_url timeout_seconds]
                  @ (if verbose then [Print (UnexpectedError page_url)] else []), None)"
    using l e by (simp add: scrape_page_def assms(1) range_py_split[OF assms(2)])
  show ?thesis using io by (simp add: s io_events_append) (simp add: io_events_def)
qed

theorem unexpected_exception_ends_scrape_witness:
  "skip_domain DOMAINS_TO_SKIP ''http://a.example/'' = None \<and> (1::nat) < nat 3 \<and>
   request_exception (first_then Timeout (Response 200 meta_without_content_page) 0) \<and>
   other_exception (first_then Timeout (Response 200 meta_without_content_page) 1) \<and>
   snd (scrape_page ''http://a.example/'' True 10 3
          (first_then Timeout (Response 200 meta_without_content_page))) = None \<and>
   io_events (fst (scrape_page ''http://a.example/'' True 10 3
                     (first_then Timeout (Response 200 meta_without_content_page))))
     = [Get ''http://a.example/'' 10, Sleep 1, Get ''http://a.example/'' 10]"
proof -
  let ?net = "first_then Timeout (Response 200 meta_without_content_page)"
  have 1: "skip_domain DOMAINS_TO_SKIP ''http://a.example/'' = None" by code_simp
  have 2: "(1::nat) < nat 3" by simp
  have 3: "request_exception (?net 0)" by (simp add: first_then_def request_exception_def)
  then have before: "\<forall>j<1. request_exception (?net j)" by simp
  have 4: "other_exception (?net 1)" by code_simp
  have 5: "concat (map (\<lambda>j. [Get ''http://a.example/'' 10, Sleep (2 ^ j)]) [0..<1])
             @ [Get ''http://a.example/'' 10]
           = [Get ''http://a.example/'' 10, Sleep 1, Get ''http://a.example/'' 10]"
    by simp
  from unexpected_exception_ends_scrape[OF 1 2 before 4, of True 10]
  show ?thesis using 1 2 3 4 unfolding 5 by blast
qed

subsection \<open>The content of a page\<close>






















lemma comment_page_scraped:
  "snd (scrape_page ''http://a.example/'' False 10 3 (always (Response 200 comment_page)))
     = Some [(''url'', PStr ''http://a.example/''), (''title'', PStr ''No title found''),
             (''description'', PStr ''No description found''),
             (''full_content'', PStr ''Helloworld'')]"
  by code_simp




end
